theory Spec2Isabelle
  imports Main "HOL-Library.Word"
begin

section \<open>Errors, as the package builds and tests them\<close>

text \<open>
  A Go error value is a tree. \<open>ErrorString a s\<close> is what \<open>errors.New(s)\<close> (and
  \<open>fmt.Errorf\<close> without \<open>%w\<close>) yields: a pointer \<open>a\<close> and its text; two such values are
  the same error exactly when they are the same pointer. \<open>WrapErrors s es\<close> is what
  \<open>fmt.Errorf\<close> yields for a format with \<open>%w\<close> verbs: the formatted text and the operands
  of the \<open>%w\<close> verbs, in order. The package never compares two results of \<open>fmt.Errorf\<close>
  with each other, so their pointers are left out. \<open>CustomError c s us ts\<close> is a value of
  an error type of the caller's: \<open>c\<close> says whether its dynamic type is comparable (a
  slice, a map or a struct that holds one is not), \<open>s\<close> is its text, \<open>us\<close> is what its
  \<open>Unwrap\<close> method yields (empty for a type without one) and \<open>ts\<close> holds the targets for
  which its \<open>Is\<close> method returns true (empty for a type without one). A nil error is
  \<open>None\<close>.
\<close>

datatype error =
    ErrorString nat string
  | WrapErrors string "error list"
  | CustomError bool string "error list" "error list"

text \<open>\<open>var ErrValidate = errors.New("validateError")\<close>, \<open>var ErrHandle = errors.New("handleError")\<close>.\<close>

definition ErrHandle :: error where
  "ErrHandle = ErrorString 0 ''handleError''"

definition ErrValidate :: error where
  "ErrValidate = ErrorString 1 ''validateError''"

text \<open>The method \<open>Error()\<close>.\<close>

fun Error :: "error \<Rightarrow> string" where
  "Error (ErrorString a s) = s"
| "Error (WrapErrors s es) = s"
| "Error (CustomError c s us ts) = s"

text \<open>Whether the dynamic type of an error is comparable; pointers are.\<close>

fun comparable :: "error \<Rightarrow> bool" where
  "comparable (ErrorString a s) = True"
| "comparable (WrapErrors s es) = True"
| "comparable (CustomError c s us ts) = c"

text \<open>
  \<open>errors.Is(err, target)\<close> for a non-nil \<open>err\<close> and \<open>target\<close>. At \<open>err\<close> and at every
  error it unwraps to, in turn: the error matches when the type of the target is
  comparable and the error \<open>==\<close> the target, or when the error has an \<open>Is\<close> method and
  it returns true for the target. A target of a type that is not comparable is never
  matched by \<open>==\<close>.
\<close>

fun errors_Is :: "error \<Rightarrow> error \<Rightarrow> bool" where
  "errors_Is (ErrorString a s) target = (comparable target \<and> ErrorString a s = target)"
| "errors_Is (WrapErrors s es) target =
     ((comparable target \<and> WrapErrors s es = target)
      \<or> list_ex (\<lambda>e. errors_Is e target) es)"
| "errors_Is (CustomError c s us ts) target =
     ((comparable target \<and> CustomError c s us ts = target)
      \<or> target \<in> set ts
      \<or> list_ex (\<lambda>e. errors_Is e target) us)"

section \<open>HandlerInfo and its text\<close>

record HandlerInfo =
  ID :: "64 word"
  Name :: string

text \<open>The verb \<open>%d\<close> on an unsigned integer: its decimal digits.\<close>

definition digit :: "nat \<Rightarrow> char" where
  "digit d = ''0123456789'' ! d"

function decimal :: "nat \<Rightarrow> string" where
  "decimal n = (if n < 10 then [digit n] else decimal (n div 10) @ [digit (n mod 10)])"
  by pat_completeness auto
termination
  by (relation "measure id") auto

declare decimal.simps [simp del]

text \<open>
  \<open>func (h HandlerInfo) String() string\<close>: \<open>"%d(%s)"\<close> of the ID and the name when the
  name is not empty, \<open>"%d"\<close> of the ID otherwise.
\<close>

definition String :: "HandlerInfo \<Rightarrow> string" where
  "String h =
     (if Name h \<noteq> '''' then decimal (unat (ID h)) @ ''('' @ Name h @ '')''
      else decimal (unat (ID h)))"

text \<open>
  \<open>fmt.Errorf("%w handler=%s %w", sentinel, info, err)\<close>: the text is the sentinel's,
  \<open>" handler="\<close>, the info's \<open>String()\<close>, a space and the text of \<open>err\<close>; the result
  unwraps to the two \<open>%w\<close> operands.
\<close>

definition Errorf :: "error \<Rightarrow> HandlerInfo \<Rightarrow> error \<Rightarrow> error" where
  "Errorf sentinel i err =
     WrapErrors (Error sentinel @ '' handler='' @ String i @ '' '' @ Error err) [sentinel, err]"

section \<open>The handler-info stack of a context (ctx.go)\<close>

text \<open>
  The value under \<open>ctxKey\<close> is a slice of HandlerInfo. A slice is a header (array, length,
  capacity) over an array that other slices may share, so the arrays live in an explicit
  store: \<open>arrays\<close> is the list of the arrays allocated so far, and a pointer is an index
  into it. Every slice of this file starts at index 0 of its array.

  Of a \<open>context.Context\<close> only the value under \<open>ctxKey\<close> is modelled (the key's type is
  private to the package, so no other code can set it): \<open>None\<close> when the type assertion
  \<open>.([]HandlerInfo)\<close> fails (nothing attached, as for \<open>context.Background()\<close>), and the
  slice header otherwise.
\<close>

record slice =
  ptr :: nat
  len :: nat
  cap :: nat

type_synonym ctx = "slice option"

type_synonym arrays = "HandlerInfo list list"

definition zeroInfo :: HandlerInfo where
  "zeroInfo = \<lparr>ID = 0, Name = ''''\<rparr>"

text \<open>
  The built-in \<open>append(s, x)\<close>. With room left (\<open>len(s) < cap(s)\<close>) it writes \<open>x\<close> into the
  array of \<open>s\<close> at index \<open>len(s)\<close> and returns a longer header over the same array.
  Otherwise it allocates a new array that holds the elements of \<open>s\<close> and \<open>x\<close>; the
  language leaves its capacity to the runtime (``sufficiently large''), so the runtime's
  choice is the parameter \<open>grow\<close>, from the old capacity to the new one, and the model
  takes at least \<open>len(s) + 1\<close>.
\<close>

definition append_info :: "(nat \<Rightarrow> nat) \<Rightarrow> slice \<Rightarrow> HandlerInfo \<Rightarrow> arrays \<Rightarrow> slice \<times> arrays" where
  "append_info grow s x h =
     (if len s < cap s
      then (s\<lparr>len := len s + 1\<rparr>, h[ptr s := (h ! ptr s)[len s := x]])
      else
        (let c = max (len s + 1) (grow (cap s));
             arr = take (len s) (h ! ptr s) @ [x] @ replicate (c - (len s + 1)) zeroInfo
         in (\<lparr>ptr = length h, len = len s + 1, cap = c\<rparr>, h @ [arr])))"

text \<open>
  \<open>func contextWithHandlerInfo(parent, info)\<close>: \<open>append(stack, info)\<close> when the parent
  holds a stack, the one-element literal \<open>[]HandlerInfo{info}\<close> (a new array of capacity
  1) otherwise. The result is the child's value under \<open>ctxKey\<close> and the store.
\<close>

definition contextWithHandlerInfo :: "(nat \<Rightarrow> nat) \<Rightarrow> ctx \<Rightarrow> HandlerInfo \<Rightarrow> arrays \<Rightarrow> ctx \<times> arrays" where
  "contextWithHandlerInfo grow parent i h =
     (case parent of
        Some stack \<Rightarrow> (let (s, h') = append_info grow stack i h in (Some s, h'))
      | None \<Rightarrow> (Some \<lparr>ptr = length h, len = 1, cap = 1\<rparr>, h @ [[i]]))"

text \<open>
  \<open>func GetHandlerInfoFromContext(ctx)\<close> returns the attached slice, or an empty one.
  The model gives the elements a caller reads through the returned slice in store \<open>h\<close>.
\<close>

definition GetHandlerInfoFromContext :: "arrays \<Rightarrow> ctx \<Rightarrow> HandlerInfo list" where
  "GetHandlerInfoFromContext h c =
     (case c of Some stack \<Rightarrow> take (len stack) (h ! ptr stack) | None \<Rightarrow> [])"

text \<open>A slice header is well formed in a store: its array exists and has its capacity.\<close>

definition slice_ok :: "arrays \<Rightarrow> slice \<Rightarrow> bool" where
  "slice_ok h s = (ptr s < length h \<and> length (h ! ptr s) = cap s \<and> len s \<le> cap s)"

section \<open>Handlers and the frames of the compiled chain (mutableware.go)\<close>

text \<open>
  The repository holds two versions of mutableware.go: one whose handlers have the
  methods \<open>Validate\<close> and \<open>Handle\<close>, and one with \<open>Handle\<close> alone. \<open>Add\<close>, \<open>Remove\<close>,
  \<open>Handle\<close> and the handler half of \<open>buildHandlers\<close> are the same text in both; the model
  has both methods.

  Handlers are code of the caller: they may log, keep the context they were given, and
  call their continuation any number of times. They are functions on a world that holds
  the store of stack arrays and a state \<open>'u\<close> of the caller's own. A handler that does not
  return is outside the model.
\<close>

record 'u world =
  heap :: arrays
  user :: 'u

type_synonym ('q, 'u) CurriedValidatorFunc =
  "ctx \<Rightarrow> 'q \<Rightarrow> 'u world \<Rightarrow> error option \<times> 'u world"

type_synonym ('q, 'r, 'u) CurriedHandlerFunc =
  "ctx \<Rightarrow> 'q \<Rightarrow> 'u world \<Rightarrow> ('r \<times> error option) \<times> 'u world"

type_synonym ('q, 'u) ValidatorFunc =
  "ctx \<Rightarrow> 'q \<Rightarrow> ('q, 'u) CurriedValidatorFunc \<Rightarrow> 'u world \<Rightarrow> error option \<times> 'u world"

type_synonym ('q, 'r, 'u) HandlerFunc =
  "ctx \<Rightarrow> 'q \<Rightarrow> ('q, 'r, 'u) CurriedHandlerFunc \<Rightarrow> 'u world \<Rightarrow> ('r \<times> error option) \<times> 'u world"

text \<open>The interface \<open>Handler\<close>: its two methods.\<close>

record ('q, 'r, 'u) Handler =
  Validate :: "('q, 'u) ValidatorFunc"
  Handle :: "('q, 'r, 'u) HandlerFunc"

record ('q, 'r, 'u) identifiedHandler =
  handler :: "('q, 'r, 'u) Handler"
  info :: HandlerInfo

text \<open>The terminal continuations; \<open>z\<close> is the zero value of the type \<open>Response\<close>.\<close>

definition nilCurriedValidatorFunc :: "('q, 'u) CurriedValidatorFunc" where
  "nilCurriedValidatorFunc cx request w = (None, w)"

definition nilCurriedHandlerFunc :: "'r \<Rightarrow> ('q, 'r, 'u) CurriedHandlerFunc" where
  "nilCurriedHandlerFunc z cx request w = ((z, None), w)"

text \<open>
  The two closures that one round of the loop of \<open>buildHandlers\<close> creates for the handler
  \<open>ih\<close> over the continuations built so far.
\<close>

definition validatorFrame ::
  "(nat \<Rightarrow> nat) \<Rightarrow> ('q, 'r, 'u) identifiedHandler \<Rightarrow> ('q, 'u) CurriedValidatorFunc
     \<Rightarrow> ('q, 'u) CurriedValidatorFunc" where
  "validatorFrame grow ih prevValidator cx msg w =
     (let (handlerCtx, h') = contextWithHandlerInfo grow cx (info ih) (heap w);
          (err, w') = Validate (handler ih) handlerCtx msg prevValidator (w\<lparr>heap := h'\<rparr>)
      in case err of
           None \<Rightarrow> (None, w')
         | Some e \<Rightarrow>
             if \<not> errors_Is e ErrValidate then (Some (Errorf ErrValidate (info ih) e), w')
             else (Some e, w'))"

definition handlerFrame ::
  "(nat \<Rightarrow> nat) \<Rightarrow> ('q, 'r, 'u) identifiedHandler \<Rightarrow> ('q, 'r, 'u) CurriedHandlerFunc
     \<Rightarrow> ('q, 'r, 'u) CurriedHandlerFunc" where
  "handlerFrame grow ih prevHandler cx msg w =
     (let (handlerCtx, h') = contextWithHandlerInfo grow cx (info ih) (heap w);
          ((out, err), w') = Handle (handler ih) handlerCtx msg prevHandler (w\<lparr>heap := h'\<rparr>)
      in case err of
           None \<Rightarrow> ((out, None), w')
         | Some e \<Rightarrow>
             if \<not> errors_Is e ErrHandle then ((out, Some (Errorf ErrHandle (info ih) e)), w')
             else ((out, Some e), w'))"

text \<open>
  What the closure of \<open>Handle\<close> does with the result of the handler's method: the
  response and the world pass through, and an error that does not match \<open>ErrHandle\<close>
  is wrapped. The frame is this applied to the call of the method (\<open>handlerFrame_tagHandle\<close>
  below).
\<close>

definition tagHandle ::
  "HandlerInfo \<Rightarrow> ('r \<times> error option) \<times> 'u world \<Rightarrow> ('r \<times> error option) \<times> 'u world" where
  "tagHandle i r =
     (case r of ((out, err), w') \<Rightarrow>
        (case err of
           None \<Rightarrow> ((out, None), w')
         | Some e \<Rightarrow>
             if \<not> errors_Is e ErrHandle then ((out, Some (Errorf ErrHandle i e)), w')
             else ((out, Some e), w')))"

section \<open>Options of Add\<close>

record builtAddOptions =
  name :: string
  swapID :: "64 word"
  last_opt :: bool

type_synonym AddOption = "builtAddOptions \<Rightarrow> builtAddOptions"

definition AddOptionName :: "string \<Rightarrow> AddOption" where
  "AddOptionName n opts = opts\<lparr>name := n\<rparr>"

definition AddOptionSwap :: "64 word \<Rightarrow> AddOption" where
  "AddOptionSwap i opts = opts\<lparr>swapID := i\<rparr>"

definition AddOptionLast :: AddOption where
  "AddOptionLast opts = opts\<lparr>last_opt := True\<rparr>"

definition buildAddOptions :: "AddOption list \<Rightarrow> builtAddOptions" where
  "buildAddOptions opts =
     foldl (\<lambda>built opt. opt built) \<lparr>name = '''', swapID = 0, last_opt = False\<rparr> opts"

section \<open>The container\<close>

text \<open>
  \<open>hc.stack\<close> is the only reference to its array, and no function reads a cell at or
  beyond the slice's length before writing it, so this slice is modelled by value: its
  elements \<open>stack\<close> and its capacity \<open>stack_cap\<close>. The mutex is left out: the model is
  sequential.
\<close>

record ('q, 'r, 'u) HandlerContainer =
  stack :: "('q, 'r, 'u) identifiedHandler list"
  stack_cap :: nat
  nextID :: "64 word"
  cachedValidator :: "('q, 'u) CurriedValidatorFunc"
  cachedHandler :: "('q, 'r, 'u) CurriedHandlerFunc"

definition NewHandlerContainer :: "'r \<Rightarrow> ('q, 'r, 'u) HandlerContainer" where
  "NewHandlerContainer z =
     \<lparr>stack = [], stack_cap = 0, nextID = 10,
      cachedValidator = nilCurriedValidatorFunc,
      cachedHandler = nilCurriedHandlerFunc z\<rparr>"

text \<open>
  The loop of \<open>buildHandlers\<close> over \<open>hc.stack\<close>, oldest first: each round wraps both
  continuations built so far.
\<close>

fun buildLoop ::
  "(nat \<Rightarrow> nat) \<Rightarrow> ('q, 'r, 'u) identifiedHandler list
     \<Rightarrow> ('q, 'u) CurriedValidatorFunc \<times> ('q, 'r, 'u) CurriedHandlerFunc
     \<Rightarrow> ('q, 'u) CurriedValidatorFunc \<times> ('q, 'r, 'u) CurriedHandlerFunc" where
  "buildLoop grow [] cur = cur"
| "buildLoop grow (ih # rest) cur =
     buildLoop grow rest (validatorFrame grow ih (fst cur), handlerFrame grow ih (snd cur))"

definition buildHandlers ::
  "(nat \<Rightarrow> nat) \<Rightarrow> 'r \<Rightarrow> ('q, 'r, 'u) HandlerContainer \<Rightarrow> ('q, 'r, 'u) HandlerContainer" where
  "buildHandlers grow z hc =
     (let cur = buildLoop grow (stack hc) (nilCurriedValidatorFunc, nilCurriedHandlerFunc z)
      in hc\<lparr>cachedValidator := fst cur, cachedHandler := snd cur\<rparr>)"

text \<open>
  \<open>slices.IndexFunc(s, f)\<close>: the first index whose element satisfies \<open>f\<close>; \<open>None\<close> stands
  for the result -1.
\<close>

fun slices_IndexFunc :: "('a \<Rightarrow> bool) \<Rightarrow> 'a list \<Rightarrow> nat option" where
  "slices_IndexFunc f [] = None"
| "slices_IndexFunc f (x # xs) =
     (if f x then Some 0 else map_option Suc (slices_IndexFunc f xs))"

text \<open>
  \<open>slices.Insert(s, 0, v)\<close> on a slice of elements \<open>xs\<close> and capacity \<open>c\<close>. The first
  component is the slice it returns, the second is the caller's slice \<open>s\<close> as it reads after
  the call (same length and capacity as before).
  \<^item> \<open>len(s) = 0\<close>: it returns \<open>append(s, v)\<close>; a write into a shared array lands at index
    0, beyond the length of \<open>s\<close>.
  \<^item> \<open>len(s) + 1 > cap(s)\<close>: it builds the result in a new array and leaves \<open>s\<close> alone.
  \<^item> otherwise it works in place: the elements move one cell to the right and \<open>v\<close> takes
    index 0, so \<open>s\<close>, still of its old length, reads \<open>v\<close> and all its old elements but the
    last.
\<close>

definition slices_Insert0 ::
  "(nat \<Rightarrow> nat) \<Rightarrow> 'a list \<times> nat \<Rightarrow> 'a \<Rightarrow> ('a list \<times> nat) \<times> ('a list \<times> nat)" where
  "slices_Insert0 grow s v =
     (case s of (xs, c) \<Rightarrow>
        if xs = [] then (([v], if 0 < c then c else max 1 (grow c)), s)
        else if length xs + 1 > c then ((v # xs, max (length xs + 1) (grow c)), s)
        else ((v # xs, c), (v # butlast xs, c)))"

text \<open>\<open>append(s, v)\<close> on the same representation: the slice it returns.\<close>

definition append_elem :: "(nat \<Rightarrow> nat) \<Rightarrow> 'a list \<times> nat \<Rightarrow> 'a \<Rightarrow> 'a list \<times> nat" where
  "append_elem grow s v =
     (case s of (xs, c) \<Rightarrow>
        (xs @ [v], if length xs < c then c else max (length xs + 1) (grow c)))"

text \<open>
  \<open>slices.DeleteFunc(s, del)\<close>: the elements that do not satisfy \<open>del\<close>, in their order,
  in the same array.
\<close>

definition slices_DeleteFunc :: "('a \<Rightarrow> bool) \<Rightarrow> 'a list \<times> nat \<Rightarrow> 'a list \<times> nat" where
  "slices_DeleteFunc del s = (case s of (xs, c) \<Rightarrow> (filter (\<lambda>e. \<not> del e) xs, c))"

text \<open>
  \<open>func (hc *HandlerContainer) Add(handler, options...)\<close>. The deferred \<open>buildHandlers\<close>
  runs on both return paths. The result of \<open>slices.Insert\<close> is not assigned, so
  \<open>hc.stack\<close> keeps what the caller's slice reads after the call.
\<close>

definition Add ::
  "(nat \<Rightarrow> nat) \<Rightarrow> 'r \<Rightarrow> ('q, 'r, 'u) Handler \<Rightarrow> AddOption list
     \<Rightarrow> ('q, 'r, 'u) HandlerContainer \<Rightarrow> 64 word \<times> ('q, 'r, 'u) HandlerContainer" where
  "Add grow z h options hc =
     (let i = nextID hc;
          hc1 = hc\<lparr>nextID := nextID hc + 1\<rparr>;
          addOpts = buildAddOptions options;
          idHandler = \<lparr>handler = h, info = \<lparr>ID = i, Name = name addOpts\<rparr>\<rparr>;
          idx = (if swapID addOpts \<noteq> 0
                 then slices_IndexFunc (\<lambda>e. ID (info e) = swapID addOpts) (stack hc1)
                 else None)
      in case idx of
           Some k \<Rightarrow> (i, buildHandlers grow z (hc1\<lparr>stack := (stack hc1)[k := idHandler]\<rparr>))
         | None \<Rightarrow>
             if last_opt addOpts
             then (let s = snd (slices_Insert0 grow (stack hc1, stack_cap hc1) idHandler)
                   in (i, buildHandlers grow z (hc1\<lparr>stack := fst s, stack_cap := snd s\<rparr>)))
             else (let s = append_elem grow (stack hc1, stack_cap hc1) idHandler
                   in (i, buildHandlers grow z (hc1\<lparr>stack := fst s, stack_cap := snd s\<rparr>))))"

text \<open>\<open>func (hc *HandlerContainer) Remove(id)\<close>.\<close>

definition Remove ::
  "(nat \<Rightarrow> nat) \<Rightarrow> 'r \<Rightarrow> 64 word \<Rightarrow> ('q, 'r, 'u) HandlerContainer
     \<Rightarrow> ('q, 'r, 'u) HandlerContainer" where
  "Remove grow z i hc =
     (let s = slices_DeleteFunc (\<lambda>e. ID (info e) = i) (stack hc, stack_cap hc)
      in buildHandlers grow z (hc\<lparr>stack := fst s, stack_cap := snd s\<rparr>))"

text \<open>The methods \<open>Validate\<close> and \<open>Handle\<close> of the container call the cached chains.\<close>

definition HandlerContainer_Validate ::
  "('q, 'r, 'u) HandlerContainer \<Rightarrow> ('q, 'u) CurriedValidatorFunc" where
  "HandlerContainer_Validate hc cx request w = cachedValidator hc cx request w"

definition HandlerContainer_Handle ::
  "('q, 'r, 'u) HandlerContainer \<Rightarrow> ('q, 'r, 'u) CurriedHandlerFunc" where
  "HandlerContainer_Handle hc cx request w = cachedHandler hc cx request w"

section \<open>The function adapter (anonHandler.go)\<close>

text \<open>
  \<open>func NewAnonymousHandler(validatorFn, handlerFn)\<close>: a nil function (\<open>None\<close>) is replaced
  by one that calls its continuation with what it was given. \<open>nilHandlerFunc\<close> is the same
  default of the later version of the file.
\<close>

definition nilHandlerFunc :: "('q, 'r, 'u) HandlerFunc" where
  "nilHandlerFunc cx request next w = next cx request w"

definition NewAnonymousHandler ::
  "('q, 'u) ValidatorFunc option \<Rightarrow> ('q, 'r, 'u) HandlerFunc option \<Rightarrow> ('q, 'r, 'u) Handler" where
  "NewAnonymousHandler validatorFn handlerFn =
     \<lparr>Validate = (case validatorFn of
                    None \<Rightarrow> (\<lambda>cx request next w. next cx request w)
                  | Some f \<Rightarrow> f),
      Handle = (case handlerFn of None \<Rightarrow> nilHandlerFunc | Some f \<Rightarrow> f)\<rparr>"

section \<open>The chain, as the specification words it\<close>

text \<open>
  The composed chain read from its outside: the handlers newest first, each bound to the
  chain of the older ones as its continuation, the terminal no-op innermost. These two
  functions are the statement to compare the loop of \<open>buildHandlers\<close> with.
\<close>

fun chainV ::
  "(nat \<Rightarrow> nat) \<Rightarrow> ('q, 'r, 'u) identifiedHandler list \<Rightarrow> ('q, 'u) CurriedValidatorFunc" where
  "chainV grow [] = nilCurriedValidatorFunc"
| "chainV grow (ih # older) = validatorFrame grow ih (chainV grow older)"

fun chainH ::
  "(nat \<Rightarrow> nat) \<Rightarrow> 'r \<Rightarrow> ('q, 'r, 'u) identifiedHandler list
     \<Rightarrow> ('q, 'r, 'u) CurriedHandlerFunc" where
  "chainH grow z [] = nilCurriedHandlerFunc z"
| "chainH grow z (ih # older) = handlerFrame grow ih (chainH grow z older)"

text \<open>A run of plain calls \<open>hc.Add(h)\<close>, one per handler of the list, in order.\<close>

fun addAll ::
  "(nat \<Rightarrow> nat) \<Rightarrow> 'r \<Rightarrow> ('q, 'r, 'u) Handler list \<Rightarrow> ('q, 'r, 'u) HandlerContainer
     \<Rightarrow> ('q, 'r, 'u) HandlerContainer" where
  "addAll grow z [] hc = hc"
| "addAll grow z (h # hs) hc = addAll grow z hs (snd (Add grow z h [] hc))"

text \<open>
  The life of a container: a sequence of calls of \<open>Add\<close> and \<open>Remove\<close>. \<open>run\<close> gives the
  IDs the calls of \<open>Add\<close> returned, in order, and the container at the end; \<open>adds\<close>
  counts the calls of \<open>Add\<close>.
\<close>

datatype ('q, 'r, 'u) op =
    OpAdd "('q, 'r, 'u) Handler" "AddOption list"
  | OpRemove "64 word"

fun run ::
  "(nat \<Rightarrow> nat) \<Rightarrow> 'r \<Rightarrow> ('q, 'r, 'u) op list \<Rightarrow> ('q, 'r, 'u) HandlerContainer
     \<Rightarrow> 64 word list \<times> ('q, 'r, 'u) HandlerContainer" where
  "run grow z [] hc = ([], hc)"
| "run grow z (OpAdd h opts # ops) hc =
     (let r = Add grow z h opts hc; rest = run grow z ops (snd r)
      in (fst r # fst rest, snd rest))"
| "run grow z (OpRemove i # ops) hc = run grow z ops (Remove grow z i hc)"

fun adds :: "('q, 'r, 'u) op list \<Rightarrow> nat" where
  "adds [] = 0"
| "adds (OpAdd h opts # ops) = Suc (adds ops)"
| "adds (OpRemove i # ops) = adds ops"

text \<open>
  The greatest length \<open>hc.stack\<close> has along a run, and the run of \<open>k\<close> pairs of calls, a
  plain \<open>Add\<close> of \<open>h\<close> and the \<open>Remove\<close> of the ID it returns, on a container whose next ID
  is \<open>n\<close>.
\<close>

fun peak ::
  "(nat \<Rightarrow> nat) \<Rightarrow> 'r \<Rightarrow> ('q, 'r, 'u) op list \<Rightarrow> ('q, 'r, 'u) HandlerContainer \<Rightarrow> nat" where
  "peak grow z [] hc = length (stack hc)"
| "peak grow z (OpAdd h opts # ops) hc =
     max (length (stack hc)) (peak grow z ops (snd (Add grow z h opts hc)))"
| "peak grow z (OpRemove i # ops) hc =
     max (length (stack hc)) (peak grow z ops (Remove grow z i hc))"

fun pairs :: "('q, 'r, 'u) Handler \<Rightarrow> nat \<Rightarrow> nat \<Rightarrow> ('q, 'r, 'u) op list" where
  "pairs h n 0 = []"
| "pairs h n (Suc k) = OpAdd h [] # OpRemove (of_nat n) # pairs h (Suc n) k"

section \<open>Fixtures: the runtime and handlers of the tests\<close>

text \<open>
  The gc runtime doubles the capacity of a slice of fewer than 256 elements when
  \<open>append\<close> outgrows it.
\<close>

definition gc_grow :: "nat \<Rightarrow> nat" where
  "gc_grow c = 2 * c"

text \<open>
  A handler that appends its tag to the caller's log and calls its continuation with
  what it was given.
\<close>

definition logH :: "nat \<Rightarrow> (nat, nat, nat list) Handler" where
  "logH k =
     \<lparr>Validate = (\<lambda>c q next w. next c q (w\<lparr>user := user w @ [k]\<rparr>)),
      Handle = (\<lambda>c q next w. next c q (w\<lparr>user := user w @ [k]\<rparr>))\<rparr>"

text \<open>
  The handler of \<open>TestHandleErr\<close>: it returns the response \<open>out\<close> and the error \<open>e\<close>
  without calling its continuation.
\<close>

definition failH :: "nat \<Rightarrow> error \<Rightarrow> (nat, nat, nat list) Handler" where
  "failH out e =
     \<lparr>Validate = (\<lambda>c q next w. (Some e, w)),
      Handle = (\<lambda>c q next w. ((out, Some e), w))\<rparr>"

definition an_error :: error where
  "an_error = ErrorString 7 ''an_error''"

text \<open>
  An error of a slice type, such as \<open>type fieldErrors []string\<close> with an \<open>Error\<close> method:
  its dynamic type is not comparable, and it has neither an \<open>Unwrap\<close> nor an \<open>Is\<close>
  method.
\<close>

definition slice_error :: error where
  "slice_error = CustomError False ''bad fields'' [] []"

definition w0 :: "nat list world" where
  "w0 = \<lparr>heap = [], user = []\<rparr>"

text \<open>
  The handlers of \<open>TestContext\<close> keep the context they are given and call their
  continuation; the test reads the stacks of the kept contexts after \<open>Handle\<close> has
  returned. \<open>keepH\<close> logs the context together with the stack it reads on entry.
\<close>

definition keepH :: "(nat, nat, (ctx \<times> HandlerInfo list) list) Handler" where
  "keepH =
     \<lparr>Validate = (\<lambda>c q next w.
        next c q (w\<lparr>user := user w @ [(c, GetHandlerInfoFromContext (heap w) c)]\<rparr>)),
      Handle = (\<lambda>c q next w.
        next c q (w\<lparr>user := user w @ [(c, GetHandlerInfoFromContext (heap w) c)]\<rparr>))\<rparr>"

text \<open>
  A handler that first sends the request, with the context it was given, through another
  container, and then calls its continuation with the same context.
\<close>

definition viaH ::
  "(nat, nat, (ctx \<times> HandlerInfo list) list) HandlerContainer
     \<Rightarrow> (nat, nat, (ctx \<times> HandlerInfo list) list) Handler" where
  "viaH other =
     \<lparr>Validate = (\<lambda>c q next w. next c q (snd (HandlerContainer_Validate other c q w))),
      Handle = (\<lambda>c q next w. next c q (snd (HandlerContainer_Handle other c q w)))\<rparr>"

text \<open>
  Two extensions of one parent context. The parent is the context of the third handler
  of a chain entered with \<open>context.Background()\<close>: its stack has length 3 in an array of
  capacity 4 under the gc runtime.
\<close>

definition parent3 :: "ctx \<times> arrays" where
  "parent3 =
     (let (c1, h1) = contextWithHandlerInfo gc_grow None \<lparr>ID = 13, Name = ''''\<rparr> [];
          (c2, h2) = contextWithHandlerInfo gc_grow c1 \<lparr>ID = 12, Name = ''''\<rparr> h1
      in contextWithHandlerInfo gc_grow c2 \<lparr>ID = 11, Name = ''''\<rparr> h2)"

definition sibling1 :: "ctx \<times> arrays" where
  "sibling1 =
     contextWithHandlerInfo gc_grow (fst parent3) \<lparr>ID = 10, Name = ''inner''\<rparr> (snd parent3)"

definition sibling2 :: "ctx \<times> arrays" where
  "sibling2 =
     contextWithHandlerInfo gc_grow (fst parent3) \<lparr>ID = 10, Name = ''base''\<rparr> (snd sibling1)"

text \<open>
  The same through the containers: \<open>hcInner\<close> holds one handler named inner; \<open>hcOuter\<close>
  holds, oldest first, a handler named base, a handler that sends the request through
  \<open>hcInner\<close> before it calls its continuation, and two pass-through handlers.
\<close>

definition hcInner :: "(nat, nat, (ctx \<times> HandlerInfo list) list) HandlerContainer" where
  "hcInner = snd (Add gc_grow 0 keepH [AddOptionName ''inner''] (NewHandlerContainer 0))"

definition hcOuter :: "(nat, nat, (ctx \<times> HandlerInfo list) list) HandlerContainer" where
  "hcOuter =
     snd (Add gc_grow 0 (NewAnonymousHandler None None) []
       (snd (Add gc_grow 0 (NewAnonymousHandler None None) []
         (snd (Add gc_grow 0 (viaH hcInner) []
           (snd (Add gc_grow 0 keepH [AddOptionName ''base''] (NewHandlerContainer 0))))))))"

text \<open>
  A life long enough for the counter to wrap, on a slice that stays short: \<open>2^64 - 10\<close>
  times, a plain \<open>Add\<close> followed by the \<open>Remove\<close> of the handler just added. \<open>hcWrapped\<close>
  is the container after one more plain \<open>Add\<close>.
\<close>

definition wrapOps :: "(nat, nat, nat list) op list" where
  "wrapOps = pairs (logH 0) 10 (2 ^ 64 - 10)"

definition hcWrapped :: "(nat, nat, nat list) HandlerContainer" where
  "hcWrapped = snd (run gc_grow 0 (wrapOps @ [OpAdd (logH 0) []]) (NewHandlerContainer 0))"

text \<open>
  The same with a handler that stays: a plain \<open>Add\<close> (ID 10), then \<open>2^64 - 1\<close> times a
  plain \<open>Add\<close> followed by the \<open>Remove\<close> of the handler just added, then a plain \<open>Add\<close>.
  \<open>hcDup\<close> is the container after that.
\<close>

definition dupOps :: "(nat, nat, nat list) op list" where
  "dupOps = OpAdd (logH 0) [] # pairs (logH 0) 11 (2 ^ 64 - 1) @ [OpAdd (logH 1) []]"

definition hcDup :: "(nat, nat, nat list) HandlerContainer" where
  "hcDup = snd (run gc_grow 0 dupOps (NewHandlerContainer 0))"

section \<open>Basic facts\<close>

lemma buildLoop_snoc:
  "buildLoop grow (xs @ [ih]) cur =
     (validatorFrame grow ih (fst (buildLoop grow xs cur)),
      handlerFrame grow ih (snd (buildLoop grow xs cur)))"
  by (induction xs arbitrary: cur) simp_all

lemma buildLoop_chain:
  "buildLoop grow xs (chainV grow ys, chainH grow z ys) =
     (chainV grow (rev xs @ ys), chainH grow z (rev xs @ ys))"
proof (induction xs arbitrary: ys)
  case Nil
  show ?case by simp
next
  case (Cons a xs)
  show ?case using Cons.IH [of "a # ys"] by simp
qed

lemma buildLoop_nil_chain:
  "buildLoop grow xs (nilCurriedValidatorFunc, nilCurriedHandlerFunc z) =
     (chainV grow (rev xs), chainH grow z (rev xs))"
  using buildLoop_chain [of grow xs "[]" z] by simp

lemma cachedHandler_buildHandlers:
  "cachedHandler (buildHandlers grow z hc) = chainH grow z (rev (stack hc))"
  by (simp add: buildHandlers_def Let_def buildLoop_nil_chain)

lemma cachedValidator_buildHandlers:
  "cachedValidator (buildHandlers grow z hc) = chainV grow (rev (stack hc))"
  by (simp add: buildHandlers_def Let_def buildLoop_nil_chain)

lemma buildHandlers_fields [simp]:
  "stack (buildHandlers grow z hc) = stack hc"
  "stack_cap (buildHandlers grow z hc) = stack_cap hc"
  "nextID (buildHandlers grow z hc) = nextID hc"
  by (simp_all add: buildHandlers_def Let_def)

lemma buildHandlers_idem:
  "buildHandlers grow z (buildHandlers grow z hc) = buildHandlers grow z hc"
  by (simp add: buildHandlers_def Let_def)

lemma buildAddOptions_Nil:
  "buildAddOptions [] = \<lparr>name = '''', swapID = 0, last_opt = False\<rparr>"
  by (simp add: buildAddOptions_def)

lemma Add_plain:
  "Add grow z h [] hc =
     (nextID hc,
      buildHandlers grow z
        (hc\<lparr>nextID := nextID hc + 1,
            stack := stack hc @ [\<lparr>handler = h, info = \<lparr>ID = nextID hc, Name = ''''\<rparr>\<rparr>],
            stack_cap := (if length (stack hc) < stack_cap hc then stack_cap hc
                          else max (length (stack hc) + 1) (grow (stack_cap hc)))\<rparr>))"
  by (simp add: Add_def Let_def buildAddOptions_Nil append_elem_def)

section \<open>Runs of plain Add\<close>

lemma addAll_snoc:
  "addAll grow z (hs @ [h]) hc = snd (Add grow z h [] (addAll grow z hs hc))"
  by (induction hs arbitrary: hc) simp_all

lemma nextID_addAll:
  "nextID (addAll grow z hs hc) = nextID hc + of_nat (length hs)"
  by (induction hs arbitrary: hc) (simp_all add: Add_plain)

lemma stack_addAll_snoc:
  "stack (addAll grow z (hs @ [h]) hc) =
     stack (addAll grow z hs hc) @
       [\<lparr>handler = h, info = \<lparr>ID = nextID hc + of_nat (length hs), Name = ''''\<rparr>\<rparr>]"
  by (simp add: addAll_snoc Add_plain nextID_addAll)

lemma map_handler_stack_addAll:
  "map handler (stack (addAll grow z hs hc)) = map handler (stack hc) @ hs"
  by (induction hs rule: rev_induct) (simp_all add: stack_addAll_snoc)

lemma cachedHandler_addAll:
  "hs \<noteq> [] \<Longrightarrow> cachedHandler (addAll grow z hs hc) = chainH grow z (rev (stack (addAll grow z hs hc)))"
  by (induction hs rule: rev_induct) (simp_all add: addAll_snoc Add_plain cachedHandler_buildHandlers)

lemma cachedValidator_addAll:
  "hs \<noteq> [] \<Longrightarrow> cachedValidator (addAll grow z hs hc) = chainV grow (rev (stack (addAll grow z hs hc)))"
  by (induction hs rule: rev_induct) (simp_all add: addAll_snoc Add_plain cachedValidator_buildHandlers)

lemma cached_addAll_New:
  "cachedHandler (addAll grow z hs (NewHandlerContainer z)) =
     chainH grow z (rev (stack (addAll grow z hs (NewHandlerContainer z))))"
  "cachedValidator (addAll grow z hs (NewHandlerContainer z)) =
     chainV grow (rev (stack (addAll grow z hs (NewHandlerContainer z))))"
  by (cases "hs = []"; simp add: cachedHandler_addAll cachedValidator_addAll NewHandlerContainer_def)+

lemma HandlerContainer_Handle_eq: "HandlerContainer_Handle hc = cachedHandler hc"
  by (intro ext) (simp add: HandlerContainer_Handle_def)

lemma HandlerContainer_Validate_eq: "HandlerContainer_Validate hc = cachedValidator hc"
  by (intro ext) (simp add: HandlerContainer_Validate_def)

lemma New_fields [simp]:
  "stack (NewHandlerContainer z) = []"
  "stack_cap (NewHandlerContainer z) = 0"
  "nextID (NewHandlerContainer z) = 10"
  "cachedHandler (NewHandlerContainer z) = nilCurriedHandlerFunc z"
  "cachedValidator (NewHandlerContainer z) = nilCurriedValidatorFunc"
  by (simp_all add: NewHandlerContainer_def)

lemma Handle_addAll_snoc:
  "HandlerContainer_Handle (addAll grow z (hs @ [h]) (NewHandlerContainer z)) =
     handlerFrame grow \<lparr>handler = h, info = \<lparr>ID = 10 + of_nat (length hs), Name = ''''\<rparr>\<rparr>
       (HandlerContainer_Handle (addAll grow z hs (NewHandlerContainer z)))"
  by (simp add: HandlerContainer_Handle_eq cached_addAll_New stack_addAll_snoc)

lemma log_chain:
  "\<exists>h'. HandlerContainer_Handle (addAll grow 0 (map logH [0..<n]) (NewHandlerContainer 0)) cx msg w =
          ((0, None), \<lparr>heap = h', user = user w @ rev [0..<n]\<rparr>)"
proof (induction n arbitrary: cx w)
  case 0
  have "w = \<lparr>heap = heap w, user = user w\<rparr>" by simp
  then have "\<exists>h'. w = \<lparr>heap = h', user = user w\<rparr>" by (rule exI)
  then show ?case
    by (simp add: HandlerContainer_Handle_eq nilCurriedHandlerFunc_def)
next
  case (Suc n)
  let ?older = "HandlerContainer_Handle (addAll grow 0 (map logH [0..<n]) (NewHandlerContainer 0))"
  let ?i = "\<lparr>ID = 10 + of_nat n, Name = ''''\<rparr>"
  obtain c a where ca: "contextWithHandlerInfo grow cx ?i (heap w) = (c, a)"
    by (cases "contextWithHandlerInfo grow cx ?i (heap w)")
  obtain h' where h': "?older c msg (w\<lparr>heap := a, user := user w @ [n]\<rparr>) =
      ((0, None), \<lparr>heap = h', user = user (w\<lparr>heap := a, user := user w @ [n]\<rparr>) @ rev [0..<n]\<rparr>)"
    using Suc.IH [of c "w\<lparr>heap := a, user := user w @ [n]\<rparr>"] by blast
  have e: "HandlerContainer_Handle (addAll grow 0 (map logH [0..<Suc n]) (NewHandlerContainer 0)) =
      handlerFrame grow \<lparr>handler = logH n, info = ?i\<rparr> ?older"
    using Handle_addAll_snoc [of grow 0 "map logH [0..<n]" "logH n"] by simp
  have "handlerFrame grow \<lparr>handler = logH n, info = ?i\<rparr> ?older cx msg w =
      ((0, None), \<lparr>heap = h', user = user w @ rev [0..<Suc n]\<rparr>)"
    using ca h' by (simp add: handlerFrame_def logH_def)
  then show ?case unfolding e by blast
qed

lemma log_chain_user:
  "user (snd (HandlerContainer_Handle (addAll grow 0 (map logH [0..<n]) (NewHandlerContainer 0))
      cx msg w)) = user w @ rev [0..<n]"
  using log_chain [of grow n cx msg w] by auto

section \<open>C3: plain Add, newest first\<close>

text \<open>
  Claim C3. After any run of plain \<open>Add\<close> calls on a new container, \<open>Handle\<close> and
  \<open>Validate\<close> are the chain with the newest handler outermost: the container that got
  \<open>hs\<close> and then \<open>h\<close> runs the frame of \<open>h\<close> (the \<open>length hs\<close>-th handler, ID
  \<open>10 + length hs\<close>) first, with the chain of the container that got \<open>hs\<close> as its
  continuation; with no handler the chain is the terminal no-op. The stack keeps the
  handlers oldest first, and the loop of \<open>buildHandlers\<close> yields the nesting \<open>chainH\<close>,
  \<open>chainV\<close> of the reversed stack. Seen from outside: when the \<open>n\<close> handlers log their
  position in the order of adding and call their continuation, one \<open>Handle\<close> appends
  \<open>n - 1, ..., 1, 0\<close> to the log.
\<close>

theorem C3_plain_adds_newest_first:
  "HandlerContainer_Handle (addAll grow z [] (NewHandlerContainer z)) = nilCurriedHandlerFunc z
   \<and> HandlerContainer_Validate (addAll grow z [] (NewHandlerContainer z)) = nilCurriedValidatorFunc
   \<and> stack (addAll grow z (hs @ [h]) (NewHandlerContainer z)) =
       stack (addAll grow z hs (NewHandlerContainer z)) @
         [\<lparr>handler = h, info = \<lparr>ID = 10 + of_nat (length hs), Name = ''''\<rparr>\<rparr>]
   \<and> HandlerContainer_Handle (addAll grow z (hs @ [h]) (NewHandlerContainer z)) =
       handlerFrame grow \<lparr>handler = h, info = \<lparr>ID = 10 + of_nat (length hs), Name = ''''\<rparr>\<rparr>
         (HandlerContainer_Handle (addAll grow z hs (NewHandlerContainer z)))
   \<and> HandlerContainer_Validate (addAll grow z (hs @ [h]) (NewHandlerContainer z)) =
       validatorFrame grow \<lparr>handler = h, info = \<lparr>ID = 10 + of_nat (length hs), Name = ''''\<rparr>\<rparr>
         (HandlerContainer_Validate (addAll grow z hs (NewHandlerContainer z)))
   \<and> map handler (stack (addAll grow z hs (NewHandlerContainer z))) = hs
   \<and> HandlerContainer_Handle (addAll grow z hs (NewHandlerContainer z)) =
       chainH grow z (rev (stack (addAll grow z hs (NewHandlerContainer z))))
   \<and> HandlerContainer_Validate (addAll grow z hs (NewHandlerContainer z)) =
       chainV grow (rev (stack (addAll grow z hs (NewHandlerContainer z))))
   \<and> user (snd (HandlerContainer_Handle
         (addAll grow 0 (map logH [0..<n]) (NewHandlerContainer 0)) cx msg w)) =
       user w @ rev [0..<n]"
proof (intro conjI)
  show "user (snd (HandlerContainer_Handle
         (addAll grow 0 (map logH [0..<n]) (NewHandlerContainer 0)) cx msg w)) =
       user w @ rev [0..<n]"
    by (rule log_chain_user)
qed (simp_all add: HandlerContainer_Handle_eq HandlerContainer_Validate_eq cached_addAll_New
      stack_addAll_snoc map_handler_stack_addAll)

theorem C3_plain_adds_newest_first_witness:
  "user (snd (HandlerContainer_Handle
       (addAll gc_grow 0 [logH 0, logH 1, logH 2] (NewHandlerContainer 0))
       None 7 \<lparr>heap = [], user = []\<rparr>)) = [2, 1, 0]"
proof -
  let ?hc = "addAll gc_grow 0 [logH 0, logH 1, logH 2] (NewHandlerContainer 0)"
  have "HandlerContainer_Handle ?hc = chainH gc_grow 0 (rev (stack ?hc))"
    using C3_plain_adds_newest_first [of gc_grow "0::nat" "[logH 0, logH 1, logH 2]" "logH 3"
        0 None 0 w0]
    by (elim conjE)
  moreover have "stack ?hc =
      [\<lparr>handler = logH 0, info = \<lparr>ID = 10, Name = ''''\<rparr>\<rparr>,
       \<lparr>handler = logH 1, info = \<lparr>ID = 11, Name = ''''\<rparr>\<rparr>,
       \<lparr>handler = logH 2, info = \<lparr>ID = 12, Name = ''''\<rparr>\<rparr>]"
    by (simp add: Add_plain)
  ultimately show ?thesis
    by (simp add: handlerFrame_def contextWithHandlerInfo_def append_info_def gc_grow_def
        logH_def nilCurriedHandlerFunc_def)
qed

section \<open>Errors and frames\<close>

lemma errors_Is_refl: "comparable e \<Longrightarrow> errors_Is e e"
  by (cases e) simp_all

lemma errors_Is_Errorf [simp]:
  "errors_Is (Errorf ErrHandle i e) ErrHandle"
  "errors_Is (Errorf ErrValidate i e) ErrValidate"
  by (simp_all add: Errorf_def ErrHandle_def ErrValidate_def)

lemma WrapErrors_neq_operand: "WrapErrors s [a, e] \<noteq> e"
proof
  assume "WrapErrors s [a, e] = e"
  then have "size (WrapErrors s [a, e]) = size e" by simp
  then show False by simp
qed

lemma errors_Is_Errorf_cause:
  assumes "\<not> errors_Is e ErrHandle"
  shows "errors_Is (Errorf ErrHandle i e) e = errors_Is e e"
proof -
  have "ErrHandle \<noteq> e"
    using assms errors_Is_refl [of ErrHandle] by (auto simp: ErrHandle_def)
  then have "\<not> errors_Is ErrHandle e"
    by (auto simp: ErrHandle_def)
  then show ?thesis
    by (simp add: Errorf_def WrapErrors_neq_operand)
qed

lemma errors_Is_Errorf_cause_validate:
  assumes "\<not> errors_Is e ErrValidate"
  shows "errors_Is (Errorf ErrValidate i e) e = errors_Is e e"
proof -
  have "ErrValidate \<noteq> e"
    using assms errors_Is_refl [of ErrValidate] by (auto simp: ErrValidate_def)
  then have "\<not> errors_Is ErrValidate e"
    by (auto simp: ErrValidate_def)
  then show ?thesis
    by (simp add: Errorf_def WrapErrors_neq_operand)
qed

lemma Error_Errorf:
  "Error (Errorf sentinel i e) =
     Error sentinel @ '' handler='' @ decimal (unat (ID i)) @
       (if Name i = '''' then '''' else ''('' @ Name i @ '')'') @ '' '' @ Error e"
  by (simp add: Errorf_def String_def)

lemma handlerFrame_result:
  assumes "contextWithHandlerInfo grow cx (info ih) (heap w) = (c, a)"
      and "Handle (handler ih) c msg prev (w\<lparr>heap := a\<rparr>) = ((out, err), w')"
  shows "handlerFrame grow ih prev cx msg w =
           ((out, case err of None \<Rightarrow> None
                  | Some e \<Rightarrow> if errors_Is e ErrHandle then Some e
                              else Some (Errorf ErrHandle (info ih) e)), w')"
  using assms by (simp add: handlerFrame_def split: option.split)

lemma validatorFrame_result:
  assumes "contextWithHandlerInfo grow cx (info ih) (heap w) = (c, a)"
      and "Validate (handler ih) c msg prev (w\<lparr>heap := a\<rparr>) = (err, w')"
  shows "validatorFrame grow ih prev cx msg w =
           (case err of None \<Rightarrow> None
                  | Some e \<Rightarrow> if errors_Is e ErrValidate then Some e
                              else Some (Errorf ErrValidate (info ih) e), w')"
  using assms by (simp add: validatorFrame_def split: option.split)

lemma handlerFrame_error_tagged:
  assumes "handlerFrame grow ih prev cx msg w = ((out, Some e), w')"
  shows "errors_Is e ErrHandle"
proof -
  obtain c a where ca: "contextWithHandlerInfo grow cx (info ih) (heap w) = (c, a)"
    by (cases "contextWithHandlerInfo grow cx (info ih) (heap w)")
  obtain o' err w'' where r: "Handle (handler ih) c msg prev (w\<lparr>heap := a\<rparr>) = ((o', err), w'')"
    by (metis prod.exhaust)
  show ?thesis
    using assms handlerFrame_result [OF ca r]
    by (cases err) (auto split: if_splits)
qed

lemma validatorFrame_error_tagged:
  assumes "validatorFrame grow ih prev cx msg w = (Some e, w')"
  shows "errors_Is e ErrValidate"
proof -
  obtain c a where ca: "contextWithHandlerInfo grow cx (info ih) (heap w) = (c, a)"
    by (cases "contextWithHandlerInfo grow cx (info ih) (heap w)")
  obtain err w'' where r: "Validate (handler ih) c msg prev (w\<lparr>heap := a\<rparr>) = (err, w'')"
    by (metis prod.exhaust)
  show ?thesis
    using assms validatorFrame_result [OF ca r]
    by (cases err) (auto split: if_splits)
qed

section \<open>Add at the tail\<close>

lemma Add_tail:
  assumes "swapID (buildAddOptions opts) = 0" and "\<not> last_opt (buildAddOptions opts)"
  shows "Add grow z h opts hc =
     (nextID hc,
      buildHandlers grow z
        (hc\<lparr>nextID := nextID hc + 1,
            stack := stack hc @
              [\<lparr>handler = h, info = \<lparr>ID = nextID hc, Name = name (buildAddOptions opts)\<rparr>\<rparr>],
            stack_cap := (if length (stack hc) < stack_cap hc then stack_cap hc
                          else max (length (stack hc) + 1) (grow (stack_cap hc)))\<rparr>))"
  using assms by (simp add: Add_def Let_def append_elem_def)

lemma Handle_after_Add_tail:
  assumes "swapID (buildAddOptions opts) = 0" and "\<not> last_opt (buildAddOptions opts)"
  shows "HandlerContainer_Handle (snd (Add grow z h opts hc)) =
           handlerFrame grow
             \<lparr>handler = h, info = \<lparr>ID = nextID hc, Name = name (buildAddOptions opts)\<rparr>\<rparr>
             (chainH grow z (rev (stack hc)))"
  by (simp add: Add_tail [OF assms] HandlerContainer_Handle_eq cachedHandler_buildHandlers)

lemma Validate_after_Add_tail:
  assumes "swapID (buildAddOptions opts) = 0" and "\<not> last_opt (buildAddOptions opts)"
  shows "HandlerContainer_Validate (snd (Add grow z h opts hc)) =
           validatorFrame grow
             \<lparr>handler = h, info = \<lparr>ID = nextID hc, Name = name (buildAddOptions opts)\<rparr>\<rparr>
             (chainV grow (rev (stack hc)))"
  by (simp add: Add_tail [OF assms] HandlerContainer_Validate_eq cachedValidator_buildHandlers)

lemma buildAddOptions_Name [simp]:
  "buildAddOptions [AddOptionName n] = \<lparr>name = n, swapID = 0, last_opt = False\<rparr>"
  by (simp add: buildAddOptions_def AddOptionName_def)

section \<open>C5: an untagged error is wrapped once, with the handler's identity\<close>




section \<open>C4: a tagged error passes through the outer frames\<close>

text \<open>
  Claim C4. Let the frame of \<open>A\<close> run over the frame of \<open>B\<close> as its continuation. If the
  frame of \<open>B\<close> produced the error \<open>e\<close> and the method of \<open>A\<close> returns \<open>e\<close>, then \<open>e\<close>
  already matches the sentinel and the frame of \<open>A\<close> returns it as it is, with the
  response and the world \<open>A\<close> returned. When \<open>e\<close> arose from an untagged error \<open>E\<close> of
  the method of \<open>B\<close>, it is \<open>E\<close> wrapped with the HandlerInfo of \<open>B\<close>. The same holds for
  the validators.
\<close>

theorem C4_tagged_error_passes_through:
  assumes cA: "contextWithHandlerInfo grow cx (info A) (heap w) = (cA, a)"
  shows "(handlerFrame grow B prev cB msgB wB = ((outB, Some e), wB')
            \<and> Handle (handler A) cA msg (handlerFrame grow B prev) (w\<lparr>heap := a\<rparr>)
                = ((outA, Some e), wA')
          \<longrightarrow> errors_Is e ErrHandle
            \<and> handlerFrame grow A (handlerFrame grow B prev) cx msg w = ((outA, Some e), wA')
            \<and> (\<forall>cB' aB E. contextWithHandlerInfo grow cB (info B) (heap wB) = (cB', aB)
                   \<and> Handle (handler B) cB' msgB prev (wB\<lparr>heap := aB\<rparr>) = ((outB, Some E), wB')
                   \<and> \<not> errors_Is E ErrHandle
                 \<longrightarrow> e = Errorf ErrHandle (info B) E))
       \<and> (validatorFrame grow B prevV cB msgB wB = (Some e, wB')
            \<and> Validate (handler A) cA msg (validatorFrame grow B prevV) (w\<lparr>heap := a\<rparr>)
                = (Some e, wA')
          \<longrightarrow> errors_Is e ErrValidate
            \<and> validatorFrame grow A (validatorFrame grow B prevV) cx msg w = (Some e, wA')
            \<and> (\<forall>cB' aB E. contextWithHandlerInfo grow cB (info B) (heap wB) = (cB', aB)
                   \<and> Validate (handler B) cB' msgB prevV (wB\<lparr>heap := aB\<rparr>) = (Some E, wB')
                   \<and> \<not> errors_Is E ErrValidate
                 \<longrightarrow> e = Errorf ErrValidate (info B) E))"
proof (intro conjI impI allI)
  assume h: "handlerFrame grow B prev cB msgB wB = ((outB, Some e), wB')
            \<and> Handle (handler A) cA msg (handlerFrame grow B prev) (w\<lparr>heap := a\<rparr>)
                = ((outA, Some e), wA')"
  show tagged: "errors_Is e ErrHandle"
    using h handlerFrame_error_tagged [of grow B prev cB msgB wB outB e wB'] by simp
  show "handlerFrame grow A (handlerFrame grow B prev) cx msg w = ((outA, Some e), wA')"
    using handlerFrame_result [OF cA, of msg "handlerFrame grow B prev" outA "Some e" wA'] h tagged
    by simp
  fix cB' aB E
  assume b: "contextWithHandlerInfo grow cB (info B) (heap wB) = (cB', aB)
                   \<and> Handle (handler B) cB' msgB prev (wB\<lparr>heap := aB\<rparr>) = ((outB, Some E), wB')
                   \<and> \<not> errors_Is E ErrHandle"
  then have "handlerFrame grow B prev cB msgB wB = ((outB, Some (Errorf ErrHandle (info B) E)), wB')"
    using handlerFrame_result [of grow cB B wB cB' aB msgB prev outB "Some E" wB'] by simp
  with h show "e = Errorf ErrHandle (info B) E" by simp
next
  assume h: "validatorFrame grow B prevV cB msgB wB = (Some e, wB')
            \<and> Validate (handler A) cA msg (validatorFrame grow B prevV) (w\<lparr>heap := a\<rparr>)
                = (Some e, wA')"
  show tagged: "errors_Is e ErrValidate"
    using h validatorFrame_error_tagged [of grow B prevV cB msgB wB e wB'] by simp
  show "validatorFrame grow A (validatorFrame grow B prevV) cx msg w = (Some e, wA')"
    using validatorFrame_result [OF cA, of msg "validatorFrame grow B prevV" "Some e" wA'] h tagged
    by simp
  fix cB' aB E
  assume b: "contextWithHandlerInfo grow cB (info B) (heap wB) = (cB', aB)
                   \<and> Validate (handler B) cB' msgB prevV (wB\<lparr>heap := aB\<rparr>) = (Some E, wB')
                   \<and> \<not> errors_Is E ErrValidate"
  then have "validatorFrame grow B prevV cB msgB wB = (Some (Errorf ErrValidate (info B) E), wB')"
    using validatorFrame_result [of grow cB B wB cB' aB msgB prevV "Some E" wB'] by simp
  with h show "e = Errorf ErrValidate (info B) E" by simp
qed

theorem C4_tagged_error_passes_through_witness:
  "HandlerContainer_Handle
     (addAll gc_grow 0 [failH 5 an_error, NewAnonymousHandler None None] (NewHandlerContainer 0))
     None 3 w0 =
     ((5, Some (WrapErrors ''handleError handler=10 an_error'' [ErrHandle, an_error])),
      \<lparr>heap = [[\<lparr>ID = 11, Name = ''''\<rparr>],
               [\<lparr>ID = 11, Name = ''''\<rparr>, \<lparr>ID = 10, Name = ''''\<rparr>]], user = []\<rparr>)"
proof -
  let ?A = "\<lparr>handler = NewAnonymousHandler None None :: (nat, nat, nat list) Handler,
             info = \<lparr>ID = 11, Name = ''''\<rparr>\<rparr>"
  let ?B = "\<lparr>handler = failH 5 an_error, info = \<lparr>ID = 10, Name = ''''\<rparr>\<rparr>"
  let ?e = "WrapErrors ''handleError handler=10 an_error'' [ErrHandle, an_error]"
  let ?w1 = "\<lparr>heap = [[\<lparr>ID = 11, Name = ''''\<rparr>]], user = [] :: nat list\<rparr>"
  let ?w2 = "\<lparr>heap = [[\<lparr>ID = 11, Name = ''''\<rparr>],
               [\<lparr>ID = 11, Name = ''''\<rparr>, \<lparr>ID = 10, Name = ''''\<rparr>]], user = [] :: nat list\<rparr>"
  let ?c1 = "Some \<lparr>ptr = 0, len = 1, cap = 1\<rparr>"
  have d: "decimal 10 = ''10''" by code_simp
  have chain: "HandlerContainer_Handle
     (addAll gc_grow 0 [failH 5 an_error, NewAnonymousHandler None None] (NewHandlerContainer 0)) =
       handlerFrame gc_grow ?A (handlerFrame gc_grow ?B (nilCurriedHandlerFunc 0))"
    by (simp add: HandlerContainer_Handle_eq Add_plain cachedHandler_buildHandlers)
  have cA: "contextWithHandlerInfo gc_grow None (info ?A) (heap w0) = (?c1, heap ?w1)"
    by (simp add: contextWithHandlerInfo_def w0_def)
  have fB: "handlerFrame gc_grow ?B (nilCurriedHandlerFunc 0) ?c1 3 ?w1 = ((5, Some ?e), ?w2)"
    by (simp add: handlerFrame_def contextWithHandlerInfo_def append_info_def gc_grow_def
        failH_def an_error_def ErrHandle_def Errorf_def String_def d)
  have hA: "Handle (handler ?A) ?c1 3 (handlerFrame gc_grow ?B (nilCurriedHandlerFunc 0))
              (w0\<lparr>heap := heap ?w1\<rparr>) = ((5, Some ?e), ?w2)"
    using fB by (simp add: NewAnonymousHandler_def nilHandlerFunc_def w0_def)
  have "handlerFrame gc_grow ?A (handlerFrame gc_grow ?B (nilCurriedHandlerFunc 0)) None 3 w0 =
          ((5, Some ?e), ?w2)"
    using C4_tagged_error_passes_through [OF cA, of ?B "nilCurriedHandlerFunc 0" ?c1 3 ?w1 5 ?e ?w2
        3 5 ?w2] fB hA
    by blast
  with chain show ?thesis by simp
qed

section \<open>C10: the response passes through on the error path\<close>

text \<open>
  Claim C10. When the method of a handler returns the response \<open>out\<close> together with a
  non-nil error that does not match the sentinel, its frame returns \<open>out\<close>, not the zero
  value, beside the wrapped error; so does \<open>Handle\<close> of a container to which the handler
  was added at the tail.
\<close>

theorem C10_response_kept_beside_wrapped_error:
  assumes c: "contextWithHandlerInfo grow cx (info ih) (heap w) = (cH, a)"
      and r: "Handle (handler ih) cH msg prev (w\<lparr>heap := a\<rparr>) = ((out, Some E), w')"
      and u: "\<not> errors_Is E ErrHandle"
  shows "handlerFrame grow ih prev cx msg w = ((out, Some (Errorf ErrHandle (info ih) E)), w')
       \<and> (swapID (buildAddOptions opts) = 0 \<and> \<not> last_opt (buildAddOptions opts)
            \<and> info ih = \<lparr>ID = nextID hc, Name = name (buildAddOptions opts)\<rparr>
            \<and> prev = chainH grow z (rev (stack hc))
          \<longrightarrow> HandlerContainer_Handle (snd (Add grow z (handler ih) opts hc)) cx msg w =
                ((out, Some (Errorf ErrHandle (info ih) E)), w'))"
proof (intro conjI impI)
  show f: "handlerFrame grow ih prev cx msg w = ((out, Some (Errorf ErrHandle (info ih) E)), w')"
    using handlerFrame_result [OF c r] u by simp
  assume p: "swapID (buildAddOptions opts) = 0 \<and> \<not> last_opt (buildAddOptions opts)
            \<and> info ih = \<lparr>ID = nextID hc, Name = name (buildAddOptions opts)\<rparr>
            \<and> prev = chainH grow z (rev (stack hc))"
  have eq: "\<lparr>handler = handler ih, info = \<lparr>ID = nextID hc, Name = name (buildAddOptions opts)\<rparr>\<rparr> = ih"
    using p by (cases ih) simp
  have "HandlerContainer_Handle (snd (Add grow z (handler ih) opts hc)) =
          handlerFrame grow
            \<lparr>handler = handler ih, info = \<lparr>ID = nextID hc, Name = name (buildAddOptions opts)\<rparr>\<rparr>
            (chainH grow z (rev (stack hc)))"
    using Handle_after_Add_tail [of opts grow z "handler ih" hc] p by blast
  then have "HandlerContainer_Handle (snd (Add grow z (handler ih) opts hc)) =
          handlerFrame grow ih (chainH grow z (rev (stack hc)))"
    by (simp only: eq)
  with f p show "HandlerContainer_Handle (snd (Add grow z (handler ih) opts hc)) cx msg w =
                ((out, Some (Errorf ErrHandle (info ih) E)), w')"
    by simp
qed

theorem C10_response_kept_beside_wrapped_error_witness:
  "HandlerContainer_Handle (snd (Add gc_grow 0 (failH 5 an_error) [] (NewHandlerContainer 0)))
     None 3 w0 =
     ((5, Some (Errorf ErrHandle \<lparr>ID = 10, Name = ''''\<rparr> an_error)),
      \<lparr>heap = [[\<lparr>ID = 10, Name = ''''\<rparr>]], user = []\<rparr>)"
proof -
  let ?ih = "\<lparr>handler = failH 5 an_error, info = \<lparr>ID = 10, Name = ''''\<rparr>\<rparr>"
  let ?w1 = "\<lparr>heap = [[\<lparr>ID = 10, Name = ''''\<rparr>]], user = [] :: nat list\<rparr>"
  have c: "contextWithHandlerInfo gc_grow None (info ?ih) (heap w0) =
             (Some \<lparr>ptr = 0, len = 1, cap = 1\<rparr>, heap ?w1)"
    by (simp add: contextWithHandlerInfo_def w0_def)
  have r: "Handle (handler ?ih) (Some \<lparr>ptr = 0, len = 1, cap = 1\<rparr>) 3
             (chainH gc_grow 0 (rev (stack (NewHandlerContainer 0)))) (w0\<lparr>heap := heap ?w1\<rparr>) =
             ((5, Some an_error), ?w1)"
    by (simp add: failH_def w0_def)
  have u: "\<not> errors_Is an_error ErrHandle"
    by (simp add: an_error_def ErrHandle_def)
  show ?thesis
    using C10_response_kept_beside_wrapped_error [OF c r u, of "[]" "NewHandlerContainer 0" 0]
    by (simp add: buildAddOptions_Nil)
qed

section \<open>Searching and deleting by ID\<close>

lemma slices_IndexFunc_None:
  "slices_IndexFunc f xs = None \<longleftrightarrow> (\<forall>x\<in>set xs. \<not> f x)"
  by (induction xs) auto

lemma slices_IndexFunc_first:
  "k < length xs \<Longrightarrow> f (xs ! k) \<Longrightarrow> (\<forall>j<k. \<not> f (xs ! j)) \<Longrightarrow> slices_IndexFunc f xs = Some k"
proof (induction xs arbitrary: k)
  case Nil
  then show ?case by simp
next
  case (Cons x xs)
  show ?case
  proof (cases k)
    case 0
    with Cons.prems show ?thesis by simp
  next
    case (Suc k')
    have "\<not> f x" using Cons.prems(3) Suc by auto
    moreover have "\<forall>j<k'. \<not> f (xs ! j)"
    proof (intro allI impI)
      fix j assume "j < k'"
      then have "\<not> f ((x # xs) ! Suc j)" using Cons.prems(3) Suc by blast
      then show "\<not> f (xs ! j)" by simp
    qed
    then have "slices_IndexFunc f xs = Some k'"
      using Cons.IH [of k'] Cons.prems(1,2) Suc by simp
    ultimately show ?thesis using Suc by simp
  qed
qed

lemma distinct_map_first:
  assumes "distinct (map g xs)" and "k < length xs" and "g (xs ! k) = t"
  shows "\<forall>j<k. g (xs ! j) \<noteq> t"
proof (intro allI impI)
  fix j assume "j < k"
  then have "j < length (map g xs)" "k < length (map g xs)" "j \<noteq> k"
    using assms(2) by auto
  then have "map g xs ! j \<noteq> map g xs ! k"
    using assms(1) nth_eq_iff_index_eq by blast
  then show "g (xs ! j) \<noteq> t"
    using assms(2,3) \<open>j < k\<close> by simp
qed

lemma filter_absent:
  "\<forall>e\<in>set xs. g e \<noteq> i \<Longrightarrow> filter (\<lambda>e. \<not> g e = i) xs = xs"
  by (induction xs) auto

lemma Remove_eq:
  "Remove grow z i hc =
     buildHandlers grow z (hc\<lparr>stack := filter (\<lambda>e. ID (info e) \<noteq> i) (stack hc)\<rparr>)"
  by (simp add: Remove_def slices_DeleteFunc_def)

section \<open>C9: removing an absent ID changes nothing\<close>

text \<open>
  Claim C9. When no handler of the sequence has the ID \<open>i\<close>, \<open>Remove i\<close> leaves the
  sequence, its capacity and the next-ID counter as they are, and the chains it compiles
  are those of the unchanged sequence. A container whose cached chains are the compiled
  ones (as \<open>NewHandlerContainer\<close>, \<open>Add\<close> and \<open>Remove\<close> leave it) comes back equal, so
  \<open>Validate\<close> and \<open>Handle\<close> behave as before. \<open>Remove\<close> returns no error value.
\<close>

theorem C9_remove_absent_is_noop:
  assumes absent: "\<forall>e\<in>set (stack hc). ID (info e) \<noteq> i"
  shows "stack (Remove grow z i hc) = stack hc
       \<and> stack_cap (Remove grow z i hc) = stack_cap hc
       \<and> nextID (Remove grow z i hc) = nextID hc
       \<and> HandlerContainer_Handle (Remove grow z i hc) = chainH grow z (rev (stack hc))
       \<and> HandlerContainer_Validate (Remove grow z i hc) = chainV grow (rev (stack hc))
       \<and> (buildHandlers grow z hc = hc \<longrightarrow>
            Remove grow z i hc = hc
            \<and> HandlerContainer_Handle (Remove grow z i hc) = HandlerContainer_Handle hc
            \<and> HandlerContainer_Validate (Remove grow z i hc) = HandlerContainer_Validate hc)"
proof -
  have f: "filter (\<lambda>e. ID (info e) \<noteq> i) (stack hc) = stack hc"
    using filter_absent [of "stack hc" "\<lambda>e. ID (info e)" i] absent by simp
  have r: "Remove grow z i hc = buildHandlers grow z hc"
    by (simp add: Remove_eq f)
  show ?thesis
    by (simp add: r HandlerContainer_Handle_eq HandlerContainer_Validate_eq
        cachedHandler_buildHandlers cachedValidator_buildHandlers)
qed

lemma Add_compiled:
  "buildHandlers grow z (snd (Add grow z h opts hc)) = snd (Add grow z h opts hc)"
  by (simp add: Add_def Let_def buildHandlers_idem split: option.split)

lemma Remove_compiled:
  "buildHandlers grow z (Remove grow z i hc) = Remove grow z i hc"
  by (simp add: Remove_def Let_def buildHandlers_idem)

lemma New_compiled:
  "buildHandlers grow z (NewHandlerContainer z) = NewHandlerContainer z"
  by (simp add: buildHandlers_def NewHandlerContainer_def)

theorem C9_remove_absent_is_noop_witness:
  "Remove gc_grow 0 99 (snd (Add gc_grow 0 (logH 1) [] (NewHandlerContainer 0))) =
     snd (Add gc_grow 0 (logH 1) [] (NewHandlerContainer 0))
   \<and> nextID (Remove gc_grow 0 99 (snd (Add gc_grow 0 (logH 1) [] (NewHandlerContainer 0)))) = 11"
proof -
  let ?hc = "snd (Add gc_grow 0 (logH 1) [] (NewHandlerContainer 0))"
  have a: "\<forall>e\<in>set (stack ?hc). ID (info e) \<noteq> 99"
    by (simp add: Add_plain)
  have n: "nextID ?hc = 11"
    by (simp add: Add_plain)
  show ?thesis
    using C9_remove_absent_is_noop [OF a, of gc_grow 0] Add_compiled [of gc_grow 0 "logH 1" "[]" "NewHandlerContainer 0"] n
    by simp
qed

section \<open>Add with a swap target\<close>

lemma buildAddOptions_snoc:
  "buildAddOptions (opts @ [opt]) = opt (buildAddOptions opts)"
  by (simp add: buildAddOptions_def)

lemma Add_swap_present:
  assumes "swapID (buildAddOptions opts) \<noteq> 0"
      and "slices_IndexFunc (\<lambda>e. ID (info e) = swapID (buildAddOptions opts)) (stack hc) = Some k"
  shows "Add grow z h opts hc =
     (nextID hc,
      buildHandlers grow z
        (hc\<lparr>nextID := nextID hc + 1,
            stack := (stack hc)
              [k := \<lparr>handler = h, info = \<lparr>ID = nextID hc, Name = name (buildAddOptions opts)\<rparr>\<rparr>]\<rparr>))"
  using assms by (simp add: Add_def Let_def)

lemma Add_no_swap:
  assumes "swapID (buildAddOptions opts) = 0
           \<or> (\<forall>e\<in>set (stack hc). ID (info e) \<noteq> swapID (buildAddOptions opts))"
  shows "Add grow z h opts hc =
     (let addOpts = buildAddOptions opts;
          hc1 = hc\<lparr>nextID := nextID hc + 1\<rparr>;
          idHandler = \<lparr>handler = h, info = \<lparr>ID = nextID hc, Name = name addOpts\<rparr>\<rparr>
      in if last_opt addOpts
         then (let s = snd (slices_Insert0 grow (stack hc1, stack_cap hc1) idHandler)
               in (nextID hc, buildHandlers grow z (hc1\<lparr>stack := fst s, stack_cap := snd s\<rparr>)))
         else (let s = append_elem grow (stack hc1, stack_cap hc1) idHandler
               in (nextID hc, buildHandlers grow z (hc1\<lparr>stack := fst s, stack_cap := snd s\<rparr>))))"
proof (cases "swapID (buildAddOptions opts) = 0")
  case True
  then show ?thesis by (simp add: Add_def Let_def)
next
  case False
  with assms have "slices_IndexFunc (\<lambda>e. ID (info e) = swapID (buildAddOptions opts)) (stack hc) = None"
    by (simp add: slices_IndexFunc_None)
  with False show ?thesis by (simp add: Add_def Let_def)
qed

section \<open>Runs that add and remove\<close>

lemma run_append:
  "run grow z (ops1 @ ops2) hc =
     (fst (run grow z ops1 hc) @ fst (run grow z ops2 (snd (run grow z ops1 hc))),
      snd (run grow z ops2 (snd (run grow z ops1 hc))))"
proof (induction ops1 arbitrary: hc)
  case Nil
  show ?case by simp
next
  case (Cons a ops1)
  show ?case by (cases a) (simp_all add: Cons.IH Let_def)
qed

lemma adds_pairs: "adds (pairs h n k) = k"
  by (induction k arbitrary: n) simp_all

lemma pair_step:
  assumes "\<forall>e\<in>set (stack hc). ID (info e) \<noteq> of_nat n" and "nextID hc = of_nat n"
  shows "stack (snd (Add grow z h [] hc)) =
           stack hc @ [\<lparr>handler = h, info = \<lparr>ID = of_nat n, Name = ''''\<rparr>\<rparr>]"
    and "stack (Remove grow z (of_nat n) (snd (Add grow z h [] hc))) = stack hc"
    and "nextID (Remove grow z (of_nat n) (snd (Add grow z h [] hc))) = of_nat (Suc n)"
  using assms by (simp_all add: Add_plain Remove_eq filter_absent)

lemma Add_plain_stack:
  "stack (snd (Add grow z h [] hc)) =
     stack hc @ [\<lparr>handler = h, info = \<lparr>ID = nextID hc, Name = ''''\<rparr>\<rparr>]"
  "nextID (snd (Add grow z h [] hc)) = nextID hc + 1"
  by (simp_all add: Add_plain)

lemma run_pairs:
  assumes "\<forall>e\<in>set (stack hc). \<forall>m. n \<le> m \<and> m < n + k \<longrightarrow> ID (info e) \<noteq> of_nat m"
      and "nextID hc = of_nat n"
  shows "stack (snd (run grow z (pairs h n k) hc)) = stack hc
       \<and> nextID (snd (run grow z (pairs h n k) hc)) = of_nat (n + k)
       \<and> peak grow z (pairs h n k) hc \<le> length (stack hc) + 1"
  using assms
proof (induction k arbitrary: n hc)
  case 0
  then show ?case by simp
next
  case (Suc k)
  let ?hc = "Remove grow z (of_nat n) (snd (Add grow z h [] hc))"
  have f: "\<forall>e\<in>set (stack hc). ID (info e) \<noteq> of_nat n"
    using Suc.prems(1) by auto
  have s: "stack ?hc = stack hc" and i: "nextID ?hc = of_nat (Suc n)"
    using pair_step(2,3) [OF f Suc.prems(2)] by blast+
  have a: "length (stack (snd (Add grow z h [] hc))) = length (stack hc) + 1"
    using pair_step(1) [OF f Suc.prems(2)] by simp
  have p: "\<forall>e\<in>set (stack ?hc). \<forall>m. Suc n \<le> m \<and> m < Suc n + k \<longrightarrow> ID (info e) \<noteq> of_nat m"
    unfolding s using Suc.prems(1) by auto
  note IH = Suc.IH [OF p i]
  show ?case
    using IH a unfolding s by (simp add: Let_def)
qed

lemma peak_append:
  "peak grow z (ops1 @ ops2) hc =
     max (peak grow z ops1 hc) (peak grow z ops2 (snd (run grow z ops1 hc)))"
proof (induction ops1 arbitrary: hc)
  case Nil
  show ?case
  proof (cases ops2)
    case Nil then show ?thesis by simp
  next
    case (Cons a list) then show ?thesis by (cases a) simp_all
  qed
next
  case (Cons a ops1)
  show ?case by (cases a) (simp_all add: Cons.IH Let_def)
qed

lemma of_nat_2_64: "(of_nat (2 ^ 64) :: 64 word) = 0"
  by simp

lemma run_wrap:
  assumes w: "10 + k = 2 ^ 64"
  shows "stack (snd (run grow z (pairs g 10 k @ [OpAdd h []]) (NewHandlerContainer z))) =
           [\<lparr>handler = h, info = \<lparr>ID = 0, Name = ''''\<rparr>\<rparr>]
       \<and> nextID (snd (run grow z (pairs g 10 k @ [OpAdd h []]) (NewHandlerContainer z))) = 1
       \<and> peak grow z (pairs g 10 k @ [OpAdd h []]) (NewHandlerContainer z) \<le> 1"
proof -
  let ?new = "NewHandlerContainer z :: ('a, 'b, 'c) HandlerContainer"
  let ?hc = "snd (run grow z (pairs g 10 k) ?new)"
  have r: "stack ?hc = stack ?new \<and> nextID ?hc = of_nat (10 + k)
       \<and> peak grow z (pairs g 10 k) ?new \<le> length (stack ?new) + 1"
  proof (rule run_pairs)
    show "\<forall>e\<in>set (stack ?new). \<forall>m. 10 \<le> m \<and> m < 10 + k \<longrightarrow> ID (info e) \<noteq> of_nat m"
      by simp
    show "nextID ?new = of_nat 10" by simp
  qed
  have s: "stack ?hc = []" using r by simp
  have "(of_nat (10 + k) :: 64 word) = of_nat (2 ^ 64)"
    using w by (rule arg_cong)
  then have n: "nextID ?hc = 0" using r of_nat_2_64 by metis
  have p: "peak grow z (pairs g 10 k) ?new \<le> 1" using r by simp
  have a: "stack (snd (Add grow z h [] ?hc)) = [\<lparr>handler = h, info = \<lparr>ID = 0, Name = ''''\<rparr>\<rparr>]"
      "nextID (snd (Add grow z h [] ?hc)) = 1"
    by (simp_all add: Add_plain s n)
  have "snd (run grow z (pairs g 10 k @ [OpAdd h []]) ?new) = snd (Add grow z h [] ?hc)"
    unfolding run_append by (simp add: Let_def)
  moreover have "peak grow z (pairs g 10 k @ [OpAdd h []]) ?new \<le> 1"
    unfolding peak_append using p a(1) s by simp
  ultimately show ?thesis using a by simp
qed

lemma mod_not_back:
  fixes m N b n :: nat
  assumes "b < n" and "n \<le> m" and "m < N + b"
  shows "m mod N \<noteq> b"
proof (cases "m < N")
  case True
  then show ?thesis using assms by simp
next
  case False
  then have e: "m mod N = (m - N) mod N" by (simp add: le_mod_geq)
  have "(m - N) mod N \<le> m - N" by (rule mod_less_eq_dividend)
  also have "m - N < b" using assms False by simp
  finally show ?thesis unfolding e by simp
qed

lemma ten_not_passed:
  assumes "11 \<le> m" and "m < 11 + k" and "11 + k = 2 ^ 64 + 10"
  shows "(10 :: 64 word) \<noteq> of_nat m"
proof
  assume e: "(10 :: 64 word) = of_nat m"
  have "unat (of_nat m :: 64 word) = m mod 2 ^ 64"
    by (simp add: unat_of_nat)
  moreover have "unat (10 :: 64 word) = 10" by simp
  ultimately have "m mod 2 ^ 64 = 10" using e by metis
  moreover have "m mod 2 ^ 64 \<noteq> 10"
  proof (rule mod_not_back [of 10 11 m])
    show "(10 :: nat) < 11" by simp
    show "11 \<le> m" by (rule assms(1))
    show "m < 2 ^ 64 + 10" using assms(2,3) by metis
  qed
  ultimately show False by contradiction
qed

lemma run_dup:
  assumes w: "11 + k = 2 ^ 64 + 10"
  shows "stack (snd (run grow z (OpAdd f [] # pairs g 11 k @ [OpAdd h []]) (NewHandlerContainer z))) =
           [\<lparr>handler = f, info = \<lparr>ID = 10, Name = ''''\<rparr>\<rparr>,
            \<lparr>handler = h, info = \<lparr>ID = 10, Name = ''''\<rparr>\<rparr>]
       \<and> nextID (snd (run grow z (OpAdd f [] # pairs g 11 k @ [OpAdd h []]) (NewHandlerContainer z))) = 11
       \<and> peak grow z (OpAdd f [] # pairs g 11 k @ [OpAdd h []]) (NewHandlerContainer z) \<le> 2"
proof -
  let ?new = "NewHandlerContainer z :: ('a, 'b, 'c) HandlerContainer"
  let ?h1 = "snd (Add grow z f [] ?new)"
  let ?hc = "snd (run grow z (pairs g 11 k) ?h1)"
  have s1: "stack ?h1 = [\<lparr>handler = f, info = \<lparr>ID = 10, Name = ''''\<rparr>\<rparr>]"
    and n1: "nextID ?h1 = of_nat 11"
    by (simp_all add: Add_plain)
  have r: "stack ?hc = stack ?h1 \<and> nextID ?hc = of_nat (11 + k)
       \<and> peak grow z (pairs g 11 k) ?h1 \<le> length (stack ?h1) + 1"
  proof (rule run_pairs)
    show "\<forall>e\<in>set (stack ?h1). \<forall>m. 11 \<le> m \<and> m < 11 + k \<longrightarrow> ID (info e) \<noteq> of_nat m"
      unfolding s1 using ten_not_passed [OF _ _ w] by simp
    show "nextID ?h1 = of_nat 11" by (rule n1)
  qed
  have s: "stack ?hc = [\<lparr>handler = f, info = \<lparr>ID = 10, Name = ''''\<rparr>\<rparr>]"
    using r s1 by simp
  have "(of_nat (11 + k) :: 64 word) = of_nat (2 ^ 64 + 10)"
    using w by (rule arg_cong)
  also have "\<dots> = of_nat (2 ^ 64) + of_nat 10" by (rule of_nat_add)
  also have "\<dots> = 10" unfolding of_nat_2_64 by simp
  finally have "(of_nat (11 + k) :: 64 word) = 10" .
  then have n: "nextID ?hc = 10" using r by metis
  have p: "peak grow z (pairs g 11 k) ?h1 \<le> 2" using r s1 by simp
  have a: "stack (snd (Add grow z h [] ?hc)) =
             [\<lparr>handler = f, info = \<lparr>ID = 10, Name = ''''\<rparr>\<rparr>,
              \<lparr>handler = h, info = \<lparr>ID = 10, Name = ''''\<rparr>\<rparr>]"
      "nextID (snd (Add grow z h [] ?hc)) = 11"
    using Add_plain_stack [of grow z h ?hc] unfolding s n by simp_all
  have e: "snd (run grow z (OpAdd f [] # pairs g 11 k @ [OpAdd h []]) ?new) = snd (Add grow z h [] ?hc)"
    by (simp add: run_append Let_def)
  have "peak grow z (pairs g 11 k @ [OpAdd h []]) ?h1 \<le> 2"
    unfolding peak_append using p a(1) s by simp
  then have "peak grow z (OpAdd f [] # pairs g 11 k @ [OpAdd h []]) ?new \<le> 2"
    by simp
  then show ?thesis using a unfolding e by simp
qed

lemma wrapOps_adds: "10 + adds wrapOps = 2 ^ 64"
proof -
  have "(10 :: nat) + (2 ^ 64 - 10) = 2 ^ 64" by simp
  then show ?thesis unfolding wrapOps_def adds_pairs .
qed

lemma wrapOps_count: "(10 :: nat) + (2 ^ 64 - 10) = 2 ^ 64"
  by simp

lemma dupOps_count: "(11 :: nat) + (2 ^ 64 - 1) = 2 ^ 64 + 10"
  by simp

lemma hcWrapped_state:
  "stack hcWrapped = [\<lparr>handler = logH 0, info = \<lparr>ID = 0, Name = ''''\<rparr>\<rparr>]"
  "nextID hcWrapped = 1"
  "peak gc_grow 0 (wrapOps @ [OpAdd (logH 0) []]) (NewHandlerContainer 0) \<le> 1"
  using run_wrap [OF wrapOps_count, of gc_grow 0 "logH 0" "logH 0"]
  unfolding hcWrapped_def wrapOps_def by blast+

lemma hcDup_state:
  "stack hcDup = [\<lparr>handler = logH 0, info = \<lparr>ID = 10, Name = ''''\<rparr>\<rparr>,
                  \<lparr>handler = logH 1, info = \<lparr>ID = 10, Name = ''''\<rparr>\<rparr>]"
  "nextID hcDup = 11"
  "peak gc_grow 0 dupOps (NewHandlerContainer 0) \<le> 2"
  using run_dup [OF dupOps_count, of gc_grow 0 "logH 0" "logH 0" "logH 1"]
  unfolding hcDup_def dupOps_def by blast+

section \<open>C6: swap replaces in place\<close>

text \<open>
  Claim C6. Let \<open>t\<close> be the swap target of the options. If \<open>t\<close> is a real target (not the
  reserved 0), the handler at position \<open>k\<close> has the ID \<open>t\<close> and no handler before \<open>k\<close> has
  it (as at every position when the IDs of the sequence are pairwise distinct), \<open>Add\<close>
  replaces the entry at \<open>k\<close> by the new handler (with the next ID and the name of the
  options): the length, the capacity and every other position are as before, and the
  chains are compiled from the new sequence. If \<open>t\<close> is 0 or no handler has the ID \<open>t\<close>,
  \<open>Add\<close> does what it does for the same options with the swap target unset.
\<close>

theorem C6_swap_in_place:
  assumes t: "swapID (buildAddOptions opts) = t"
  shows "(t \<noteq> 0 \<and> k < length (stack hc) \<and> ID (info (stack hc ! k)) = t
            \<and> (distinct (map (\<lambda>e. ID (info e)) (stack hc))
                 \<or> (\<forall>j<k. ID (info (stack hc ! j)) \<noteq> t))
          \<longrightarrow> fst (Add grow z h opts hc) = nextID hc
            \<and> stack (snd (Add grow z h opts hc)) =
                (stack hc)[k := \<lparr>handler = h,
                                 info = \<lparr>ID = nextID hc, Name = name (buildAddOptions opts)\<rparr>\<rparr>]
            \<and> length (stack (snd (Add grow z h opts hc))) = length (stack hc)
            \<and> stack_cap (snd (Add grow z h opts hc)) = stack_cap hc
            \<and> stack (snd (Add grow z h opts hc)) ! k =
                \<lparr>handler = h, info = \<lparr>ID = nextID hc, Name = name (buildAddOptions opts)\<rparr>\<rparr>
            \<and> (\<forall>j<length (stack hc). j \<noteq> k \<longrightarrow>
                  stack (snd (Add grow z h opts hc)) ! j = stack hc ! j)
            \<and> HandlerContainer_Handle (snd (Add grow z h opts hc)) =
                chainH grow z (rev (stack (snd (Add grow z h opts hc))))
            \<and> HandlerContainer_Validate (snd (Add grow z h opts hc)) =
                chainV grow (rev (stack (snd (Add grow z h opts hc)))))
       \<and> (t = 0 \<or> (\<forall>e\<in>set (stack hc). ID (info e) \<noteq> t)
          \<longrightarrow> Add grow z h opts hc = Add grow z h (opts @ [AddOptionSwap 0]) hc)"
proof (intro conjI impI)
  assume p: "t \<noteq> 0 \<and> k < length (stack hc) \<and> ID (info (stack hc ! k)) = t
            \<and> (distinct (map (\<lambda>e. ID (info e)) (stack hc))
                 \<or> (\<forall>j<k. ID (info (stack hc ! j)) \<noteq> t))"
  let ?new = "\<lparr>handler = h, info = \<lparr>ID = nextID hc, Name = name (buildAddOptions opts)\<rparr>\<rparr>"
  have first: "\<forall>j<k. ID (info (stack hc ! j)) \<noteq> t"
    using distinct_map_first [of "\<lambda>e. ID (info e)" "stack hc" k t] p by blast
  have idx: "slices_IndexFunc (\<lambda>e. ID (info e) = swapID (buildAddOptions opts)) (stack hc) = Some k"
    using slices_IndexFunc_first [of k "stack hc" "\<lambda>e. ID (info e) = t"] p first t by simp
  have a: "Add grow z h opts hc =
     (nextID hc, buildHandlers grow z (hc\<lparr>nextID := nextID hc + 1, stack := (stack hc)[k := ?new]\<rparr>))"
    using Add_swap_present [OF _ idx] p t by simp
  show "fst (Add grow z h opts hc) = nextID hc" by (simp add: a)
  show s: "stack (snd (Add grow z h opts hc)) = (stack hc)[k := ?new]" by (simp add: a)
  show "length (stack (snd (Add grow z h opts hc))) = length (stack hc)" by (simp add: s)
  show "stack_cap (snd (Add grow z h opts hc)) = stack_cap hc" by (simp add: a)
  show "stack (snd (Add grow z h opts hc)) ! k = ?new" using p by (simp add: s)
  show "\<forall>j<length (stack hc). j \<noteq> k \<longrightarrow> stack (snd (Add grow z h opts hc)) ! j = stack hc ! j"
    by (simp add: s)
  show "HandlerContainer_Handle (snd (Add grow z h opts hc)) =
          chainH grow z (rev (stack (snd (Add grow z h opts hc))))"
    by (simp add: a HandlerContainer_Handle_eq cachedHandler_buildHandlers)
  show "HandlerContainer_Validate (snd (Add grow z h opts hc)) =
          chainV grow (rev (stack (snd (Add grow z h opts hc))))"
    by (simp add: a HandlerContainer_Validate_eq cachedValidator_buildHandlers)
next
  assume absent: "t = 0 \<or> (\<forall>e\<in>set (stack hc). ID (info e) \<noteq> t)"
  have b: "buildAddOptions (opts @ [AddOptionSwap 0]) = (buildAddOptions opts)\<lparr>swapID := 0\<rparr>"
    by (simp add: buildAddOptions_snoc AddOptionSwap_def)
  have "Add grow z h (opts @ [AddOptionSwap 0]) hc =
     (let addOpts = buildAddOptions opts;
          hc1 = hc\<lparr>nextID := nextID hc + 1\<rparr>;
          idHandler = \<lparr>handler = h, info = \<lparr>ID = nextID hc, Name = name addOpts\<rparr>\<rparr>
      in if last_opt addOpts
         then (let s = snd (slices_Insert0 grow (stack hc1, stack_cap hc1) idHandler)
               in (nextID hc, buildHandlers grow z (hc1\<lparr>stack := fst s, stack_cap := snd s\<rparr>)))
         else (let s = append_elem grow (stack hc1, stack_cap hc1) idHandler
               in (nextID hc, buildHandlers grow z (hc1\<lparr>stack := fst s, stack_cap := snd s\<rparr>))))"
    using Add_no_swap [of "opts @ [AddOptionSwap 0]" hc grow z h] by (simp add: b Let_def)
  moreover have "Add grow z h opts hc =
     (let addOpts = buildAddOptions opts;
          hc1 = hc\<lparr>nextID := nextID hc + 1\<rparr>;
          idHandler = \<lparr>handler = h, info = \<lparr>ID = nextID hc, Name = name addOpts\<rparr>\<rparr>
      in if last_opt addOpts
         then (let s = snd (slices_Insert0 grow (stack hc1, stack_cap hc1) idHandler)
               in (nextID hc, buildHandlers grow z (hc1\<lparr>stack := fst s, stack_cap := snd s\<rparr>)))
         else (let s = append_elem grow (stack hc1, stack_cap hc1) idHandler
               in (nextID hc, buildHandlers grow z (hc1\<lparr>stack := fst s, stack_cap := snd s\<rparr>))))"
    using Add_no_swap [of opts hc grow z h] absent t by simp
  ultimately show "Add grow z h opts hc = Add grow z h (opts @ [AddOptionSwap 0]) hc"
    by simp
qed

theorem C6_swap_in_place_witness:
  "map info (stack (snd (Add gc_grow 0 (failH 5 an_error) [AddOptionSwap 11, AddOptionName ''new'']
       (addAll gc_grow 0 [logH 0, logH 1, logH 2] (NewHandlerContainer 0))))) =
     [\<lparr>ID = 10, Name = ''''\<rparr>, \<lparr>ID = 13, Name = ''new''\<rparr>, \<lparr>ID = 12, Name = ''''\<rparr>]
   \<and> Add gc_grow 0 (logH 3) [AddOptionSwap 99]
       (addAll gc_grow 0 [logH 0, logH 1, logH 2] (NewHandlerContainer 0)) =
     Add gc_grow 0 (logH 3) ([AddOptionSwap 99] @ [AddOptionSwap 0])
       (addAll gc_grow 0 [logH 0, logH 1, logH 2] (NewHandlerContainer 0))"
proof -
  let ?hc = "addAll gc_grow 0 [logH 0, logH 1, logH 2] (NewHandlerContainer 0)"
  have st: "stack ?hc =
      [\<lparr>handler = logH 0, info = \<lparr>ID = 10, Name = ''''\<rparr>\<rparr>,
       \<lparr>handler = logH 1, info = \<lparr>ID = 11, Name = ''''\<rparr>\<rparr>,
       \<lparr>handler = logH 2, info = \<lparr>ID = 12, Name = ''''\<rparr>\<rparr>]"
    by (simp add: Add_plain)
  have n: "nextID ?hc = 13"
    by (simp add: Add_plain)
  have o1: "buildAddOptions [AddOptionSwap 11, AddOptionName ''new''] =
              \<lparr>name = ''new'', swapID = 11, last_opt = False\<rparr>"
    by (simp add: buildAddOptions_def AddOptionSwap_def AddOptionName_def)
  have o2: "buildAddOptions [AddOptionSwap 99] = \<lparr>name = '''', swapID = 99, last_opt = False\<rparr>"
    by (simp add: buildAddOptions_def AddOptionSwap_def)
  have t1: "swapID (buildAddOptions [AddOptionSwap 11, AddOptionName ''new'']) = 11"
    by (simp add: o1)
  have t2: "swapID (buildAddOptions [AddOptionSwap 99]) = 99"
    by (simp add: o2)
  have p1: "(11 :: 64 word) \<noteq> 0 \<and> 1 < length (stack ?hc) \<and> ID (info (stack ?hc ! 1)) = 11
            \<and> (distinct (map (\<lambda>e. ID (info e)) (stack ?hc))
                 \<or> (\<forall>j<1. ID (info (stack ?hc ! j)) \<noteq> 11))"
    unfolding st by simp
  have p2: "(99 :: 64 word) = 0 \<or> (\<forall>e\<in>set (stack ?hc). ID (info e) \<noteq> 99)"
    unfolding st by simp
  have "stack (snd (Add gc_grow 0 (failH 5 an_error) [AddOptionSwap 11, AddOptionName ''new''] ?hc)) =
          (stack ?hc)[1 := \<lparr>handler = failH 5 an_error, info = \<lparr>ID = 13, Name = ''new''\<rparr>\<rparr>]"
    using C6_swap_in_place [OF t1, of 1 ?hc gc_grow 0 "failH 5 an_error"] p1
    unfolding n o1 by simp
  moreover have "Add gc_grow 0 (logH 3) [AddOptionSwap 99] ?hc =
     Add gc_grow 0 (logH 3) ([AddOptionSwap 99] @ [AddOptionSwap 0]) ?hc"
    using C6_swap_in_place [OF t2, of 0 ?hc gc_grow 0 "logH 3"] p2 by blast
  ultimately show ?thesis
    unfolding st by simp
qed

text \<open>
  Claim C6, where it fails. After the counter has wrapped, \<open>hcWrapped\<close> holds one handler,
  with the ID 0: \<open>Add\<close> with the swap target 0 takes the target for unset and appends, so
  the sequence has two handlers and the one with the ID 0 is still at position 0.
  \<open>hcDup\<close> holds two handlers with the ID 10: \<open>Add\<close> with the swap target 10 replaces the
  first of them, and the handler with the ID 10 at position 1 stays.
\<close>

theorem C6_swap_counterexample:
  "map (\<lambda>e. ID (info e)) (stack hcWrapped) = [0]
   \<and> peak gc_grow 0 (wrapOps @ [OpAdd (logH 0) []]) (NewHandlerContainer 0) \<le> 1
   \<and> map (\<lambda>e. ID (info e)) (stack (snd (Add gc_grow 0 (logH 1) [AddOptionSwap 0] hcWrapped)))
       = [0, 1]
   \<and> stack (snd (Add gc_grow 0 (logH 1) [AddOptionSwap 0] hcWrapped)) ! 0 = stack hcWrapped ! 0
   \<and> map (\<lambda>e. ID (info e)) (stack hcDup) = [10, 10]
   \<and> peak gc_grow 0 dupOps (NewHandlerContainer 0) \<le> 2
   \<and> map (\<lambda>e. ID (info e)) (stack (snd (Add gc_grow 0 (logH 2) [AddOptionSwap 10] hcDup)))
       = [11, 10]
   \<and> stack (snd (Add gc_grow 0 (logH 2) [AddOptionSwap 10] hcDup)) ! 1 = stack hcDup ! 1"
proof -
  have o0: "buildAddOptions [AddOptionSwap 0] = \<lparr>name = '''', swapID = 0, last_opt = False\<rparr>"
    by (simp add: buildAddOptions_def AddOptionSwap_def)
  have o1: "buildAddOptions [AddOptionSwap 10] = \<lparr>name = '''', swapID = 10, last_opt = False\<rparr>"
    by (simp add: buildAddOptions_def AddOptionSwap_def)
  have a: "stack (snd (Add gc_grow 0 (logH 1) [AddOptionSwap 0] hcWrapped)) =
      [\<lparr>handler = logH 0, info = \<lparr>ID = 0, Name = ''''\<rparr>\<rparr>,
       \<lparr>handler = logH 1, info = \<lparr>ID = 1, Name = ''''\<rparr>\<rparr>]"
    by (simp add: Add_def Let_def o0 append_elem_def hcWrapped_state buildHandlers_fields)
  have b: "stack (snd (Add gc_grow 0 (logH 2) [AddOptionSwap 10] hcDup)) =
      [\<lparr>handler = logH 2, info = \<lparr>ID = 11, Name = ''''\<rparr>\<rparr>,
       \<lparr>handler = logH 1, info = \<lparr>ID = 10, Name = ''''\<rparr>\<rparr>]"
    by (simp add: Add_def Let_def o1 hcDup_state buildHandlers_fields)
  show ?thesis
    unfolding a b hcWrapped_state(1) hcDup_state(1)
    using hcWrapped_state(3) hcDup_state(3) by simp
qed

section \<open>The context a frame hands to its handler\<close>

lemma handlerFrame_tagHandle:
  "handlerFrame grow ih prev cx msg w =
     tagHandle (info ih)
       (Handle (handler ih) (fst (contextWithHandlerInfo grow cx (info ih) (heap w))) msg prev
          (w\<lparr>heap := snd (contextWithHandlerInfo grow cx (info ih) (heap w))\<rparr>))"
  by (simp add: handlerFrame_def tagHandle_def split_beta)

lemma contextWithHandlerInfo_None:
  "contextWithHandlerInfo grow None i h = (Some \<lparr>ptr = length h, len = 1, cap = 1\<rparr>, h @ [[i]])"
  by (simp add: contextWithHandlerInfo_def)

lemma contextWithHandlerInfo_full:
  "len s = cap s \<Longrightarrow>
   contextWithHandlerInfo grow (Some s) i h =
     (Some \<lparr>ptr = length h, len = len s + 1, cap = max (len s + 1) (grow (cap s))\<rparr>,
      h @ [take (len s) (h ! ptr s) @ [i] @
             replicate (max (len s + 1) (grow (cap s)) - (len s + 1)) zeroInfo])"
  by (simp add: contextWithHandlerInfo_def append_info_def Let_def)

lemma contextWithHandlerInfo_room:
  "len s < cap s \<Longrightarrow>
   contextWithHandlerInfo grow (Some s) i h =
     (Some (s\<lparr>len := len s + 1\<rparr>), h[ptr s := (h ! ptr s)[len s := i]])"
  by (simp add: contextWithHandlerInfo_def append_info_def)

lemma Add_Name_New:
  "Add grow z X [AddOptionName n] (NewHandlerContainer z) =
     (10, buildHandlers grow z
        ((NewHandlerContainer z)
           \<lparr>nextID := 11, stack := [\<lparr>handler = X, info = \<lparr>ID = 10, Name = n\<rparr>\<rparr>],
            stack_cap := max 1 (grow 0)\<rparr>))"
  by (simp add: Add_tail)

section \<open>C7: the stacks of the two-handler chain\<close>

text \<open>
  Claim C7. Add \<open>X\<close> with the name a and then \<open>Y\<close> with the name b to a new container:
  their IDs are 10 and 11. \<open>Handle\<close> on a context with no stack calls the method of \<open>Y\<close>
  with a context whose stack reads \<open>[{11, b}]\<close>, and gives it the chain of the container
  that holds \<open>X\<close> alone as its continuation. Whenever that continuation is called with
  the context of \<open>Y\<close>, in a world where its stack still reads \<open>[{11, b}]\<close>, it calls the
  method of \<open>X\<close> with a context whose stack reads \<open>[{11, b}, {10, a}]\<close>. A context with no
  stack reads as the empty sequence.
\<close>

theorem C7_stacks_of_two_handler_chain:
  "HandlerContainer_Handle
     (snd (Add grow z Y [AddOptionName ''b'']
        (snd (Add grow z X [AddOptionName ''a''] (NewHandlerContainer z)))))
     None msg w =
     tagHandle \<lparr>ID = 11, Name = ''b''\<rparr>
       (Handle Y (Some \<lparr>ptr = length (heap w), len = 1, cap = 1\<rparr>) msg
          (HandlerContainer_Handle (snd (Add grow z X [AddOptionName ''a''] (NewHandlerContainer z))))
          (w\<lparr>heap := heap w @ [[\<lparr>ID = 11, Name = ''b''\<rparr>]]\<rparr>))
   \<and> GetHandlerInfoFromContext (heap w @ [[\<lparr>ID = 11, Name = ''b''\<rparr>]])
        (Some \<lparr>ptr = length (heap w), len = 1, cap = 1\<rparr>) = [\<lparr>ID = 11, Name = ''b''\<rparr>]
   \<and> (GetHandlerInfoFromContext (heap w1) (Some \<lparr>ptr = p, len = 1, cap = 1\<rparr>)
         = [\<lparr>ID = 11, Name = ''b''\<rparr>]
       \<longrightarrow>
        HandlerContainer_Handle (snd (Add grow z X [AddOptionName ''a''] (NewHandlerContainer z)))
          (Some \<lparr>ptr = p, len = 1, cap = 1\<rparr>) msg1 w1 =
        tagHandle \<lparr>ID = 10, Name = ''a''\<rparr>
          (Handle X (Some \<lparr>ptr = length (heap w1), len = 2, cap = max 2 (grow 1)\<rparr>) msg1
             (nilCurriedHandlerFunc z)
             (w1\<lparr>heap := heap w1 @
                [[\<lparr>ID = 11, Name = ''b''\<rparr>, \<lparr>ID = 10, Name = ''a''\<rparr>] @
                 replicate (max 2 (grow 1) - 2) zeroInfo]\<rparr>))
        \<and> GetHandlerInfoFromContext
            (heap w1 @ [[\<lparr>ID = 11, Name = ''b''\<rparr>, \<lparr>ID = 10, Name = ''a''\<rparr>] @
                 replicate (max 2 (grow 1) - 2) zeroInfo])
            (Some \<lparr>ptr = length (heap w1), len = 2, cap = max 2 (grow 1)\<rparr>)
           = [\<lparr>ID = 11, Name = ''b''\<rparr>, \<lparr>ID = 10, Name = ''a''\<rparr>])
   \<and> GetHandlerInfoFromContext h None = []"
proof (intro conjI impI)
  let ?hcX = "snd (Add grow z X [AddOptionName ''a''] (NewHandlerContainer z))"
  have sX: "stack ?hcX = [\<lparr>handler = X, info = \<lparr>ID = 10, Name = ''a''\<rparr>\<rparr>]" "nextID ?hcX = 11"
    by (simp_all add: Add_Name_New)
  have hX: "HandlerContainer_Handle ?hcX =
      handlerFrame grow \<lparr>handler = X, info = \<lparr>ID = 10, Name = ''a''\<rparr>\<rparr> (nilCurriedHandlerFunc z)"
    by (simp add: Add_Name_New HandlerContainer_Handle_eq cachedHandler_buildHandlers)
  have hY: "HandlerContainer_Handle (snd (Add grow z Y [AddOptionName ''b''] ?hcX)) =
      handlerFrame grow \<lparr>handler = Y, info = \<lparr>ID = 11, Name = ''b''\<rparr>\<rparr> (HandlerContainer_Handle ?hcX)"
    using Handle_after_Add_tail [of "[AddOptionName ''b'']" grow z Y ?hcX]
    by (simp add: sX hX)
  show "HandlerContainer_Handle (snd (Add grow z Y [AddOptionName ''b''] ?hcX)) None msg w =
     tagHandle \<lparr>ID = 11, Name = ''b''\<rparr>
       (Handle Y (Some \<lparr>ptr = length (heap w), len = 1, cap = 1\<rparr>) msg
          (HandlerContainer_Handle ?hcX) (w\<lparr>heap := heap w @ [[\<lparr>ID = 11, Name = ''b''\<rparr>]]\<rparr>))"
    by (simp add: hY handlerFrame_tagHandle contextWithHandlerInfo_None)
  show "GetHandlerInfoFromContext (heap w @ [[\<lparr>ID = 11, Name = ''b''\<rparr>]])
        (Some \<lparr>ptr = length (heap w), len = 1, cap = 1\<rparr>) = [\<lparr>ID = 11, Name = ''b''\<rparr>]"
    by (simp add: GetHandlerInfoFromContext_def)
  show "GetHandlerInfoFromContext h None = []"
    by (simp add: GetHandlerInfoFromContext_def)
  assume r: "GetHandlerInfoFromContext (heap w1) (Some \<lparr>ptr = p, len = 1, cap = 1\<rparr>)
         = [\<lparr>ID = 11, Name = ''b''\<rparr>]"
  then have t: "take (Suc 0) (heap w1 ! p) = [\<lparr>ID = 11, Name = ''b''\<rparr>]"
    by (simp add: GetHandlerInfoFromContext_def)
  have c: "contextWithHandlerInfo grow (Some \<lparr>ptr = p, len = 1, cap = 1\<rparr>)
             \<lparr>ID = 10, Name = ''a''\<rparr> (heap w1) =
        (Some \<lparr>ptr = length (heap w1), len = 2, cap = max 2 (grow 1)\<rparr>,
         heap w1 @ [[\<lparr>ID = 11, Name = ''b''\<rparr>, \<lparr>ID = 10, Name = ''a''\<rparr>] @
                 replicate (max 2 (grow 1) - 2) zeroInfo])"
    using contextWithHandlerInfo_full [of "\<lparr>ptr = p, len = 1, cap = 1\<rparr>" grow
        "\<lparr>ID = 10, Name = ''a''\<rparr>" "heap w1"] t
    by (simp add: numeral_2_eq_2)
  show "HandlerContainer_Handle ?hcX (Some \<lparr>ptr = p, len = 1, cap = 1\<rparr>) msg1 w1 =
        tagHandle \<lparr>ID = 10, Name = ''a''\<rparr>
          (Handle X (Some \<lparr>ptr = length (heap w1), len = 2, cap = max 2 (grow 1)\<rparr>) msg1
             (nilCurriedHandlerFunc z)
             (w1\<lparr>heap := heap w1 @
                [[\<lparr>ID = 11, Name = ''b''\<rparr>, \<lparr>ID = 10, Name = ''a''\<rparr>] @
                 replicate (max 2 (grow 1) - 2) zeroInfo]\<rparr>))"
    using c by (simp add: hX handlerFrame_tagHandle)
  show "GetHandlerInfoFromContext
            (heap w1 @ [[\<lparr>ID = 11, Name = ''b''\<rparr>, \<lparr>ID = 10, Name = ''a''\<rparr>] @
                 replicate (max 2 (grow 1) - 2) zeroInfo])
            (Some \<lparr>ptr = length (heap w1), len = 2, cap = max 2 (grow 1)\<rparr>)
           = [\<lparr>ID = 11, Name = ''b''\<rparr>, \<lparr>ID = 10, Name = ''a''\<rparr>]"
    by (simp add: GetHandlerInfoFromContext_def)
qed

theorem C7_stacks_of_two_handler_chain_witness:
  "user (snd (HandlerContainer_Handle
     (snd (Add gc_grow 0 keepH [AddOptionName ''b'']
        (snd (Add gc_grow 0 keepH [AddOptionName ''a''] (NewHandlerContainer 0)))))
     None 0 \<lparr>heap = [], user = []\<rparr>)) =
   [(Some \<lparr>ptr = 0, len = 1, cap = 1\<rparr>, [\<lparr>ID = 11, Name = ''b''\<rparr>]),
    (Some \<lparr>ptr = 1, len = 2, cap = 2\<rparr>, [\<lparr>ID = 11, Name = ''b''\<rparr>, \<lparr>ID = 10, Name = ''a''\<rparr>])]"
proof -
  let ?iY = "\<lparr>ID = 11, Name = ''b''\<rparr>"
  let ?iX = "\<lparr>ID = 10, Name = ''a''\<rparr>"
  let ?w = "\<lparr>heap = [], user = [] :: (ctx \<times> HandlerInfo list) list\<rparr>"
  let ?w1 = "\<lparr>heap = [[?iY]], user = [(Some \<lparr>ptr = 0, len = 1, cap = 1\<rparr>, [?iY])]\<rparr>"
  let ?hcX = "snd (Add gc_grow 0 keepH [AddOptionName ''a''] (NewHandlerContainer 0))"
  let ?hc = "snd (Add gc_grow 0 keepH [AddOptionName ''b''] ?hcX)"
  note th = C7_stacks_of_two_handler_chain [of gc_grow 0 keepH keepH 0 ?w ?w1 0 0 "[]"]
  have g: "GetHandlerInfoFromContext (heap ?w1) (Some \<lparr>ptr = 0, len = 1, cap = 1\<rparr>) = [?iY]"
    by (simp add: GetHandlerInfoFromContext_def)
  have inner: "HandlerContainer_Handle ?hcX (Some \<lparr>ptr = 0, len = 1, cap = 1\<rparr>) 0 ?w1 =
        tagHandle ?iX
          (Handle keepH (Some \<lparr>ptr = length (heap ?w1), len = 2, cap = max 2 (gc_grow 1)\<rparr>) 0
             (nilCurriedHandlerFunc 0)
             (?w1\<lparr>heap := heap ?w1 @ [[?iY, ?iX] @ replicate (max 2 (gc_grow 1) - 2) zeroInfo]\<rparr>))"
    using th g by blast
  have outer: "HandlerContainer_Handle ?hc None 0 ?w =
     tagHandle ?iY
       (Handle keepH (Some \<lparr>ptr = length (heap ?w), len = 1, cap = 1\<rparr>) 0
          (HandlerContainer_Handle ?hcX) (?w\<lparr>heap := heap ?w @ [[?iY]]\<rparr>))"
    using th by blast
  have k: "Handle keepH (Some \<lparr>ptr = length (heap ?w), len = 1, cap = 1\<rparr>) 0
          (HandlerContainer_Handle ?hcX) (?w\<lparr>heap := heap ?w @ [[?iY]]\<rparr>) =
        HandlerContainer_Handle ?hcX (Some \<lparr>ptr = 0, len = 1, cap = 1\<rparr>) 0 ?w1"
    by (simp add: keepH_def GetHandlerInfoFromContext_def)
  show ?thesis
    unfolding outer k inner
    by (simp add: keepH_def GetHandlerInfoFromContext_def tagHandle_def nilCurriedHandlerFunc_def
        gc_grow_def)
qed

section \<open>C1: Add with the last option\<close>

text \<open>
  Claim C1, evaluated. \<open>Add\<close> calls \<open>slices.Insert(hc.stack, 0, idHandler)\<close> and drops the
  slice it returns. On a new container the sequence stays empty, so \<open>Handle\<close> is the
  terminal no-op and the handler is never called. On the container that got three plain
  handlers (length 3, capacity 4 under the gc runtime) the insert works in place: the new
  handler takes index 0, and the newest of the three falls out of the sequence.
\<close>

theorem C1_add_last_drops_insert_result:
  "stack (snd (Add grow z h [AddOptionLast] (NewHandlerContainer z))) = []
   \<and> fst (Add grow z h [AddOptionLast] (NewHandlerContainer z)) = 10
   \<and> HandlerContainer_Handle (snd (Add grow z h [AddOptionLast] (NewHandlerContainer z))) cx msg w
       = ((z, None), w)
   \<and> map info (stack (snd (Add gc_grow z h [AddOptionLast]
        (addAll gc_grow z [a, b, c] (NewHandlerContainer z))))) =
       [\<lparr>ID = 13, Name = ''''\<rparr>, \<lparr>ID = 10, Name = ''''\<rparr>, \<lparr>ID = 11, Name = ''''\<rparr>]"
proof -
  have o: "buildAddOptions [AddOptionLast] = \<lparr>name = '''', swapID = 0, last_opt = True\<rparr>"
    by (simp add: buildAddOptions_def AddOptionLast_def)
  have n: "Add grow z h [AddOptionLast] (NewHandlerContainer z) =
             (10, buildHandlers grow z ((NewHandlerContainer z)\<lparr>nextID := 11\<rparr>))"
    by (simp add: Add_def Let_def o slices_Insert0_def NewHandlerContainer_def)
  have s3: "stack (addAll gc_grow z [a, b, c] (NewHandlerContainer z)) =
      [\<lparr>handler = a, info = \<lparr>ID = 10, Name = ''''\<rparr>\<rparr>,
       \<lparr>handler = b, info = \<lparr>ID = 11, Name = ''''\<rparr>\<rparr>,
       \<lparr>handler = c, info = \<lparr>ID = 12, Name = ''''\<rparr>\<rparr>]"
    "stack_cap (addAll gc_grow z [a, b, c] (NewHandlerContainer z)) = 4"
    "nextID (addAll gc_grow z [a, b, c] (NewHandlerContainer z)) = 13"
    by (simp_all add: Add_plain gc_grow_def)
  have l: "map info (stack (snd (Add gc_grow z h [AddOptionLast]
        (addAll gc_grow z [a, b, c] (NewHandlerContainer z))))) =
       [\<lparr>ID = 13, Name = ''''\<rparr>, \<lparr>ID = 10, Name = ''''\<rparr>, \<lparr>ID = 11, Name = ''''\<rparr>]"
    unfolding Add_def o by (simp add: Let_def s3 slices_Insert0_def del: addAll.simps)
  show ?thesis
    by (simp add: n l HandlerContainer_Handle_eq cachedHandler_buildHandlers
        nilCurriedHandlerFunc_def del: addAll.simps)
qed

section \<open>C2: two extensions of one parent context\<close>

text \<open>
  Claim C2, evaluated. \<open>contextWithHandlerInfo\<close> appends to the parent's slice. The parent
  \<open>parent3\<close> has room in its array, so both extensions write their HandlerInfo into the
  same cell and return the same header: after the second extension the first child's
  stack ends with the second child's entry. The parent's own stack is unchanged. Through
  the containers: the handler of \<open>hcInner\<close> read a stack ending with its own entry on
  entry, and the context it kept reads a stack ending with the handler named base of
  \<open>hcOuter\<close> once \<open>Handle\<close> has returned.
\<close>

theorem C2_sibling_extension_overwrites:
  "fst parent3 = Some \<lparr>ptr = 2, len = 3, cap = 4\<rparr>
   \<and> GetHandlerInfoFromContext (snd sibling1) (fst sibling1) =
       [\<lparr>ID = 13, Name = ''''\<rparr>, \<lparr>ID = 12, Name = ''''\<rparr>, \<lparr>ID = 11, Name = ''''\<rparr>,
        \<lparr>ID = 10, Name = ''inner''\<rparr>]
   \<and> GetHandlerInfoFromContext (snd sibling2) (fst sibling1) =
       [\<lparr>ID = 13, Name = ''''\<rparr>, \<lparr>ID = 12, Name = ''''\<rparr>, \<lparr>ID = 11, Name = ''''\<rparr>,
        \<lparr>ID = 10, Name = ''base''\<rparr>]
   \<and> GetHandlerInfoFromContext (snd sibling2) (fst parent3) =
       [\<lparr>ID = 13, Name = ''''\<rparr>, \<lparr>ID = 12, Name = ''''\<rparr>, \<lparr>ID = 11, Name = ''''\<rparr>]
   \<and> user (snd (HandlerContainer_Handle hcOuter None 0 \<lparr>heap = [], user = []\<rparr>)) =
       [(Some \<lparr>ptr = 2, len = 4, cap = 4\<rparr>,
         [\<lparr>ID = 13, Name = ''''\<rparr>, \<lparr>ID = 12, Name = ''''\<rparr>, \<lparr>ID = 11, Name = ''''\<rparr>,
          \<lparr>ID = 10, Name = ''inner''\<rparr>]),
        (Some \<lparr>ptr = 2, len = 4, cap = 4\<rparr>,
         [\<lparr>ID = 13, Name = ''''\<rparr>, \<lparr>ID = 12, Name = ''''\<rparr>, \<lparr>ID = 11, Name = ''''\<rparr>,
          \<lparr>ID = 10, Name = ''base''\<rparr>])]
   \<and> GetHandlerInfoFromContext
        (heap (snd (HandlerContainer_Handle hcOuter None 0 \<lparr>heap = [], user = []\<rparr>)))
        (Some \<lparr>ptr = 2, len = 4, cap = 4\<rparr>) =
       [\<lparr>ID = 13, Name = ''''\<rparr>, \<lparr>ID = 12, Name = ''''\<rparr>, \<lparr>ID = 11, Name = ''''\<rparr>,
        \<lparr>ID = 10, Name = ''base''\<rparr>]"
proof -
  have p: "parent3 = (Some \<lparr>ptr = 2, len = 3, cap = 4\<rparr>,
      [[\<lparr>ID = 13, Name = ''''\<rparr>], [\<lparr>ID = 13, Name = ''''\<rparr>, \<lparr>ID = 12, Name = ''''\<rparr>],
       [\<lparr>ID = 13, Name = ''''\<rparr>, \<lparr>ID = 12, Name = ''''\<rparr>, \<lparr>ID = 11, Name = ''''\<rparr>, zeroInfo]])"
    by (simp add: parent3_def contextWithHandlerInfo_def append_info_def gc_grow_def)
  have s1: "sibling1 = (Some \<lparr>ptr = 2, len = 4, cap = 4\<rparr>,
      [[\<lparr>ID = 13, Name = ''''\<rparr>], [\<lparr>ID = 13, Name = ''''\<rparr>, \<lparr>ID = 12, Name = ''''\<rparr>],
       [\<lparr>ID = 13, Name = ''''\<rparr>, \<lparr>ID = 12, Name = ''''\<rparr>, \<lparr>ID = 11, Name = ''''\<rparr>,
        \<lparr>ID = 10, Name = ''inner''\<rparr>]])"
    by (simp add: sibling1_def p contextWithHandlerInfo_def append_info_def)
  have s2: "sibling2 = (Some \<lparr>ptr = 2, len = 4, cap = 4\<rparr>,
      [[\<lparr>ID = 13, Name = ''''\<rparr>], [\<lparr>ID = 13, Name = ''''\<rparr>, \<lparr>ID = 12, Name = ''''\<rparr>],
       [\<lparr>ID = 13, Name = ''''\<rparr>, \<lparr>ID = 12, Name = ''''\<rparr>, \<lparr>ID = 11, Name = ''''\<rparr>,
        \<lparr>ID = 10, Name = ''base''\<rparr>]])"
    by (simp add: sibling2_def s1 p contextWithHandlerInfo_def append_info_def)
  have hi: "HandlerContainer_Handle hcInner =
      handlerFrame gc_grow \<lparr>handler = keepH, info = \<lparr>ID = 10, Name = ''inner''\<rparr>\<rparr>
        (nilCurriedHandlerFunc 0)"
    by (simp add: hcInner_def Add_tail HandlerContainer_Handle_eq cachedHandler_buildHandlers)
  have ho: "HandlerContainer_Handle hcOuter =
      handlerFrame gc_grow
        \<lparr>handler = NewAnonymousHandler None None, info = \<lparr>ID = 13, Name = ''''\<rparr>\<rparr>
        (handlerFrame gc_grow
           \<lparr>handler = NewAnonymousHandler None None, info = \<lparr>ID = 12, Name = ''''\<rparr>\<rparr>
           (handlerFrame gc_grow \<lparr>handler = viaH hcInner, info = \<lparr>ID = 11, Name = ''''\<rparr>\<rparr>
              (handlerFrame gc_grow \<lparr>handler = keepH, info = \<lparr>ID = 10, Name = ''base''\<rparr>\<rparr>
                 (nilCurriedHandlerFunc 0))))"
    by (simp add: hcOuter_def Add_tail Add_plain HandlerContainer_Handle_eq
        cachedHandler_buildHandlers)
  have run: "HandlerContainer_Handle hcOuter None 0 \<lparr>heap = [], user = []\<rparr> =
    ((0, None),
     \<lparr>heap =
        [[\<lparr>ID = 13, Name = ''''\<rparr>], [\<lparr>ID = 13, Name = ''''\<rparr>, \<lparr>ID = 12, Name = ''''\<rparr>],
         [\<lparr>ID = 13, Name = ''''\<rparr>, \<lparr>ID = 12, Name = ''''\<rparr>, \<lparr>ID = 11, Name = ''''\<rparr>,
          \<lparr>ID = 10, Name = ''base''\<rparr>]],
      user =
       [(Some \<lparr>ptr = 2, len = 4, cap = 4\<rparr>,
         [\<lparr>ID = 13, Name = ''''\<rparr>, \<lparr>ID = 12, Name = ''''\<rparr>, \<lparr>ID = 11, Name = ''''\<rparr>,
          \<lparr>ID = 10, Name = ''inner''\<rparr>]),
        (Some \<lparr>ptr = 2, len = 4, cap = 4\<rparr>,
         [\<lparr>ID = 13, Name = ''''\<rparr>, \<lparr>ID = 12, Name = ''''\<rparr>, \<lparr>ID = 11, Name = ''''\<rparr>,
          \<lparr>ID = 10, Name = ''base''\<rparr>])]\<rparr>)"
    unfolding ho
    by (simp add: hi handlerFrame_def contextWithHandlerInfo_def append_info_def gc_grow_def
        NewAnonymousHandler_def nilHandlerFunc_def viaH_def keepH_def
        GetHandlerInfoFromContext_def nilCurriedHandlerFunc_def zeroInfo_def)
  show ?thesis
    unfolding run
    by (simp add: p s1 s2 GetHandlerInfoFromContext_def)
qed

section \<open>The IDs of a container over its life\<close>

lemma Add_fst: "fst (Add grow z h opts hc) = nextID hc"
  by (simp add: Add_def Let_def split: option.split)

lemma Add_nextID: "nextID (snd (Add grow z h opts hc)) = nextID hc + 1"
  by (simp add: Add_def Let_def split: option.split)

lemma Add_stack_cases:
  "\<exists>new. ID (info new) = nextID hc \<and>
     ((\<exists>k. stack (snd (Add grow z h opts hc)) = (stack hc)[k := new])
      \<or> stack (snd (Add grow z h opts hc)) = new # butlast (stack hc)
      \<or> stack (snd (Add grow z h opts hc)) = stack hc
      \<or> stack (snd (Add grow z h opts hc)) = stack hc @ [new])"
proof -
  let ?new = "\<lparr>handler = h, info = \<lparr>ID = nextID hc, Name = name (buildAddOptions opts)\<rparr>\<rparr>"
  have "(\<exists>k. stack (snd (Add grow z h opts hc)) = (stack hc)[k := ?new])
      \<or> stack (snd (Add grow z h opts hc)) = ?new # butlast (stack hc)
      \<or> stack (snd (Add grow z h opts hc)) = stack hc
      \<or> stack (snd (Add grow z h opts hc)) = stack hc @ [?new]"
    by (auto simp: Add_def Let_def slices_Insert0_def append_elem_def split: option.split)
  moreover have "ID (info ?new) = nextID hc" by simp
  ultimately show ?thesis by blast
qed

lemma Add_ids:
  assumes d: "distinct (map (\<lambda>e. ID (info e)) (stack hc))"
      and f: "\<forall>e\<in>set (stack hc). ID (info e) \<noteq> nextID hc"
  shows "distinct (map (\<lambda>e. ID (info e)) (stack (snd (Add grow z h opts hc))))
       \<and> (\<lambda>e. ID (info e)) ` set (stack (snd (Add grow z h opts hc)))
           \<subseteq> insert (nextID hc) ((\<lambda>e. ID (info e)) ` set (stack hc))"
proof -
  let ?g = "\<lambda>e. ID (info e)"
  let ?s = "stack (snd (Add grow z h opts hc))"
  obtain new where n: "?g new = nextID hc"
    and c: "(\<exists>k. ?s = (stack hc)[k := new]) \<or> ?s = new # butlast (stack hc)
             \<or> ?s = stack hc \<or> ?s = stack hc @ [new]"
    using Add_stack_cases [of hc grow z h opts] by blast
  have fresh: "?g new \<notin> set (map ?g (stack hc))"
    using f n by auto
  from c consider (swap) k where "?s = (stack hc)[k := new]"
    | (head) "?s = new # butlast (stack hc)"
    | (same) "?s = stack hc"
    | (tail) "?s = stack hc @ [new]"
    by blast
  then show ?thesis
  proof cases
    case swap
    have "distinct ((map ?g (stack hc))[k := ?g new])"
      using d fresh by (intro distinct_list_update) auto
    then have "distinct (map ?g ?s)"
      by (simp add: swap map_update)
    moreover have "set ?s \<subseteq> insert new (set (stack hc))"
      unfolding swap by (rule set_update_subset_insert)
    ultimately show ?thesis using n by auto
  next
    case head
    have "distinct (map ?g (butlast (stack hc)))"
      using d by (simp add: map_butlast distinct_butlast)
    moreover have "set (butlast (stack hc)) \<subseteq> set (stack hc)"
      by (auto dest: in_set_butlastD)
    ultimately show ?thesis using head n fresh by auto
  next
    case same
    then show ?thesis using d by auto
  next
    case tail
    then show ?thesis using d n fresh by auto
  qed
qed

lemma Remove_ids:
  "stack (Remove grow z i hc) = filter (\<lambda>e. ID (info e) \<noteq> i) (stack hc)"
  "nextID (Remove grow z i hc) = nextID hc"
  by (simp_all add: Remove_eq)

lemma unat_of_nat64: "n < 2 ^ 64 \<Longrightarrow> unat (of_nat n :: 64 word) = n"
  by (simp add: unat_of_nat)

lemma run_invariant:
  assumes "nextID hc = of_nat n"
      and "n + adds ops \<le> 2 ^ 64"
      and "\<forall>e\<in>set (stack hc). unat (ID (info e)) < n"
      and "distinct (map (\<lambda>e. ID (info e)) (stack hc))"
  shows "fst (run grow z ops hc) = map of_nat [n..<n + adds ops]
       \<and> nextID (snd (run grow z ops hc)) = of_nat (n + adds ops)
       \<and> (\<forall>e\<in>set (stack (snd (run grow z ops hc))). unat (ID (info e)) < n + adds ops)
       \<and> distinct (map (\<lambda>e. ID (info e)) (stack (snd (run grow z ops hc))))
       \<and> (\<lambda>e. ID (info e)) ` set (stack (snd (run grow z ops hc)))
           \<subseteq> (\<lambda>e. ID (info e)) ` set (stack hc) \<union> set (fst (run grow z ops hc))"
  using assms
proof (induction ops arbitrary: hc n)
  case Nil
  then show ?case by simp
next
  case (Cons a ops)
  show ?case
  proof (cases a)
    case (OpAdd h opts)
    let ?hc' = "snd (Add grow z h opts hc)"
    have nlt: "n < 2 ^ 64" using Cons.prems(2) OpAdd by simp
    have un: "unat (nextID hc) = n" using Cons.prems(1) nlt by (simp add: unat_of_nat64)
    have fresh: "\<forall>e\<in>set (stack hc). ID (info e) \<noteq> nextID hc"
      using Cons.prems(3) un by auto
    have ids: "distinct (map (\<lambda>e. ID (info e)) (stack ?hc'))"
      "(\<lambda>e. ID (info e)) ` set (stack ?hc') \<subseteq> insert (nextID hc) ((\<lambda>e. ID (info e)) ` set (stack hc))"
      using Add_ids [OF Cons.prems(4) fresh, of grow z h opts] by blast+
    have p1: "nextID ?hc' = of_nat (Suc n)"
      by (simp add: Add_nextID Cons.prems(1))
    have p2: "Suc n + adds ops \<le> 2 ^ 64" using Cons.prems(2) OpAdd by simp
    have p3: "\<forall>e\<in>set (stack ?hc'). unat (ID (info e)) < Suc n"
    proof
      fix e assume "e \<in> set (stack ?hc')"
      then have "ID (info e) = nextID hc \<or> (\<exists>e'\<in>set (stack hc). ID (info e) = ID (info e'))"
        using ids(2) by auto
      then show "unat (ID (info e)) < Suc n"
        using un Cons.prems(3) by (auto simp: less_Suc_eq)
    qed
    note IH = Cons.IH [OF p1 p2 p3 ids(1)]
    have fr: "fst (run grow z (a # ops) hc) = nextID hc # fst (run grow z ops ?hc')"
      and sr: "snd (run grow z (a # ops) hc) = snd (run grow z ops ?hc')"
      by (simp_all add: OpAdd Let_def Add_fst)
    have ad: "n + adds (a # ops) = Suc n + adds ops"
      by (simp add: OpAdd)
    have up: "[n..<Suc n + adds ops] = n # [Suc n..<Suc n + adds ops]"
      by (simp add: upt_conv_Cons)
    have "fst (run grow z (a # ops) hc) = map of_nat [n..<n + adds (a # ops)]"
      unfolding fr ad up using IH Cons.prems(1) by simp
    moreover have "nextID (snd (run grow z (a # ops) hc)) = of_nat (n + adds (a # ops))"
      unfolding sr ad using IH by blast
    moreover have "\<forall>e\<in>set (stack (snd (run grow z (a # ops) hc))). unat (ID (info e)) < n + adds (a # ops)"
      unfolding sr ad using IH by blast
    moreover have "distinct (map (\<lambda>e. ID (info e)) (stack (snd (run grow z (a # ops) hc))))"
      unfolding sr using IH by blast
    moreover have "(\<lambda>e. ID (info e)) ` set (stack (snd (run grow z (a # ops) hc)))
           \<subseteq> (\<lambda>e. ID (info e)) ` set (stack hc) \<union> set (fst (run grow z (a # ops) hc))"
    proof -
      have "(\<lambda>e. ID (info e)) ` set (stack (snd (run grow z ops ?hc')))
           \<subseteq> (\<lambda>e. ID (info e)) ` set (stack ?hc') \<union> set (fst (run grow z ops ?hc'))"
        using IH by blast
      then show ?thesis unfolding sr fr using ids(2) by auto
    qed
    ultimately show ?thesis by blast
  next
    case (OpRemove i)
    let ?hc' = "Remove grow z i hc"
    have p1: "nextID ?hc' = of_nat n" by (simp add: Remove_ids Cons.prems(1))
    have p2: "n + adds ops \<le> 2 ^ 64" using Cons.prems(2) OpRemove by simp
    have p3: "\<forall>e\<in>set (stack ?hc'). unat (ID (info e)) < n"
      using Cons.prems(3) by (simp add: Remove_ids)
    have p4: "distinct (map (\<lambda>e. ID (info e)) (stack ?hc'))"
      using Cons.prems(4) by (simp add: Remove_ids distinct_map_filter)
    note IH = Cons.IH [OF p1 p2 p3 p4]
    have sub: "(\<lambda>e. ID (info e)) ` set (stack ?hc') \<subseteq> (\<lambda>e. ID (info e)) ` set (stack hc)"
      by (auto simp: Remove_ids)
    have e: "run grow z (a # ops) hc = run grow z ops ?hc'" "adds (a # ops) = adds ops"
      by (simp_all add: OpRemove)
    have "(\<lambda>e. ID (info e)) ` set (stack (snd (run grow z ops ?hc')))
           \<subseteq> (\<lambda>e. ID (info e)) ` set (stack hc) \<union> set (fst (run grow z ops ?hc'))"
      using IH sub by blast
    then show ?thesis
      unfolding e using IH by blast
  qed
qed

lemma sorted_ids:
  assumes "m \<le> 2 ^ 64"
  shows "sorted_wrt (<) (map (of_nat :: nat \<Rightarrow> 64 word) [n..<m])"
proof -
  have "sorted_wrt (\<lambda>x y. (of_nat x :: 64 word) < of_nat y) [n..<m]"
  proof (rule sorted_wrt_mono_rel [of _ "(<)"])
    fix x y assume "x \<in> set [n..<m]" "y \<in> set [n..<m]" "x < y"
    then have "x < 2 ^ 64" "y < 2 ^ 64" using assms by auto
    then show "(of_nat x :: 64 word) < of_nat y"
      using \<open>x < y\<close> by (simp add: word_less_nat_alt unat_of_nat64)
  qed simp
  then show ?thesis by (simp add: sorted_wrt_map)
qed

lemma zero_not_id:
  assumes "m \<le> 2 ^ 64" and "0 < n"
  shows "(0 :: 64 word) \<notin> set (map of_nat [n..<m])"
proof
  assume "(0 :: 64 word) \<in> set (map of_nat [n..<m])"
  then obtain k where k: "n \<le> k" "k < m" "(of_nat k :: 64 word) = 0" by auto
  have "k < 2 ^ 64" using k(2) assms(1) by simp
  then have "unat (of_nat k :: 64 word) = k" by (rule unat_of_nat64)
  moreover have "unat (of_nat k :: 64 word) = 0" using k(3) by simp
  ultimately have "k = 0" by simp
  with k(1) assms(2) show False by simp
qed


lemma ids_at_wrap:
  assumes w: "10 + adds ops = 2 ^ 64"
  shows "hd (fst (run grow z (ops @ [OpAdd h opts]) (NewHandlerContainer z))) = 10
       \<and> last (fst (run grow z (ops @ [OpAdd h opts]) (NewHandlerContainer z))) = 0
       \<and> \<not> sorted_wrt (<) (fst (run grow z (ops @ [OpAdd h opts]) (NewHandlerContainer z)))"
proof -
  let ?new = "NewHandlerContainer z :: ('a, 'b, 'c) HandlerContainer"
  let ?m = "10 + adds ops"
  have le: "?m \<le> 2 ^ 64" using w by (rule eq_imp_le)
  have pos: "10 < ?m" using w by simp
  have inv: "fst (run grow z ops ?new) = map of_nat [10..<?m]
       \<and> nextID (snd (run grow z ops ?new)) = of_nat ?m
       \<and> (\<forall>e\<in>set (stack (snd (run grow z ops ?new))). unat (ID (info e)) < ?m)
       \<and> distinct (map (\<lambda>e. ID (info e)) (stack (snd (run grow z ops ?new))))
       \<and> (\<lambda>e. ID (info e)) ` set (stack (snd (run grow z ops ?new)))
           \<subseteq> (\<lambda>e. ID (info e)) ` set (stack ?new) \<union> set (fst (run grow z ops ?new))"
  proof (rule run_invariant [of ?new 10 ops grow z])
    show "nextID ?new = of_nat 10" by simp
    show "?m \<le> 2 ^ 64" by (rule le)
    show "\<forall>e\<in>set (stack ?new). unat (ID (info e)) < 10" by simp
    show "distinct (map (\<lambda>e. ID (info e)) (stack ?new))" by simp
  qed
  have f: "fst (run grow z ops ?new) = map of_nat [10..<?m]"
    using inv by blast
  have "(of_nat ?m :: 64 word) = of_nat (2 ^ 64)"
    using w by (rule arg_cong)
  also have "\<dots> = 0" by simp
  finally have z0: "(of_nat ?m :: 64 word) = 0" .
  have n: "nextID (snd (run grow z ops ?new)) = 0"
    using inv z0 by metis
  have l: "fst (run grow z [OpAdd h opts] (snd (run grow z ops ?new))) = [0]"
    by (simp add: Let_def Add_fst n)
  have r: "fst (run grow z (ops @ [OpAdd h opts]) ?new) = map of_nat [10..<?m] @ [0]"
    unfolding run_append fst_conv f l ..
  have c: "[10..<?m] = 10 # [Suc 10..<?m]"
    using pos by (rule upt_conv_Cons)
  have h: "hd (map of_nat [10..<?m] @ [0 :: 64 word]) = 10"
    unfolding c by simp
  have t: "last (map of_nat [10..<?m] @ [0 :: 64 word]) = 0"
    by (rule last_snoc)
  have "\<not> sorted_wrt (<) (map of_nat [10..<?m] @ [0 :: 64 word])"
  proof
    assume "sorted_wrt (<) (map of_nat [10..<?m] @ [0 :: 64 word])"
    then have "sorted_wrt (<) ((10 :: 64 word) # map of_nat [Suc 10..<?m] @ [0])"
      unfolding c by simp
    then have "(10 :: 64 word) < 0" by simp
    then show False by simp
  qed
  with h t show ?thesis unfolding r by blast
qed

section \<open>C8: the IDs a container assigns\<close>

text \<open>
  Claim C8, as the code has it. \<open>nextID\<close> is a 64-bit counter that starts at 10 and is
  incremented without a check. Over any life of a container with at most \<open>2^64 - 10\<close>
  calls of \<open>Add\<close>, whatever calls of \<open>Remove\<close> lie between them, the IDs returned are
  10, 11, 12, ... in this order: strictly increasing, never 0 and never repeated; the IDs
  in the sequence are pairwise distinct and are among the IDs returned.
\<close>

theorem C8_ids_increase_until_wrap:
  assumes "adds ops \<le> 2 ^ 64 - 10"
  shows "fst (run grow z ops (NewHandlerContainer z)) = map of_nat [10..<10 + adds ops]
       \<and> sorted_wrt (<) (fst (run grow z ops (NewHandlerContainer z)))
       \<and> distinct (fst (run grow z ops (NewHandlerContainer z)))
       \<and> 0 \<notin> set (fst (run grow z ops (NewHandlerContainer z)))
       \<and> nextID (snd (run grow z ops (NewHandlerContainer z))) = of_nat (10 + adds ops)
       \<and> distinct (map (\<lambda>e. ID (info e)) (stack (snd (run grow z ops (NewHandlerContainer z)))))
       \<and> (\<lambda>e. ID (info e)) ` set (stack (snd (run grow z ops (NewHandlerContainer z))))
           \<subseteq> set (fst (run grow z ops (NewHandlerContainer z)))"
proof -
  let ?new = "NewHandlerContainer z :: ('a, 'b, 'c) HandlerContainer"
  have b: "10 + adds ops \<le> 2 ^ 64" using assms by simp
  have inv: "fst (run grow z ops ?new) = map of_nat [10..<10 + adds ops]
       \<and> nextID (snd (run grow z ops ?new)) = of_nat (10 + adds ops)
       \<and> (\<forall>e\<in>set (stack (snd (run grow z ops ?new))). unat (ID (info e)) < 10 + adds ops)
       \<and> distinct (map (\<lambda>e. ID (info e)) (stack (snd (run grow z ops ?new))))
       \<and> (\<lambda>e. ID (info e)) ` set (stack (snd (run grow z ops ?new)))
           \<subseteq> (\<lambda>e. ID (info e)) ` set (stack ?new) \<union> set (fst (run grow z ops ?new))"
    by (rule run_invariant [of ?new 10 ops grow z]) (use b in simp_all)
  have i1: "fst (run grow z ops ?new) = map of_nat [10..<10 + adds ops]"
    using inv by blast
  have i2: "nextID (snd (run grow z ops ?new)) = of_nat (10 + adds ops)"
    using inv by blast
  have i3: "distinct (map (\<lambda>e. ID (info e)) (stack (snd (run grow z ops ?new))))"
    using inv by blast
  have "(\<lambda>e. ID (info e)) ` set (stack (snd (run grow z ops ?new)))
           \<subseteq> (\<lambda>e. ID (info e)) ` set (stack ?new) \<union> set (fst (run grow z ops ?new))"
    using inv by blast
  then have i4: "(\<lambda>e. ID (info e)) ` set (stack (snd (run grow z ops ?new)))
           \<subseteq> set (fst (run grow z ops ?new))"
    by simp
  have s: "sorted_wrt (<) (fst (run grow z ops ?new))"
    unfolding i1 by (rule sorted_ids [OF b])
  then have d: "distinct (fst (run grow z ops ?new))"
    using strict_sorted_iff by blast
  have n: "0 \<notin> set (fst (run grow z ops ?new))"
    unfolding i1 by (rule zero_not_id [OF b]) simp
  show ?thesis
    using i1 i2 i3 i4 s d n by blast
qed

theorem C8_ids_increase_until_wrap_witness:
  "fst (run gc_grow 0 [OpAdd (logH 0) [], OpAdd (logH 1) [], OpRemove 10, OpAdd (logH 2) []]
          (NewHandlerContainer 0)) = [10, 11, 12]
   \<and> map (\<lambda>e. ID (info e))
        (stack (snd (run gc_grow 0
          [OpAdd (logH 0) [], OpAdd (logH 1) [], OpRemove 10, OpAdd (logH 2) []]
          (NewHandlerContainer 0)))) = [11, 12]"
proof -
  let ?ops = "[OpAdd (logH 0) [], OpAdd (logH 1) [], OpRemove 10, OpAdd (logH 2) []]"
  have a: "adds ?ops \<le> 2 ^ 64 - 10" by simp
  have u: "[10..<13] = [10, 11, 12 :: nat]"
    by (simp add: upt_rec)
  have "fst (run gc_grow 0 ?ops (NewHandlerContainer 0)) = map of_nat [10..<10 + adds ?ops]"
    using C8_ids_increase_until_wrap [OF a, of gc_grow 0] by blast
  then have "fst (run gc_grow 0 ?ops (NewHandlerContainer 0)) = [10, 11, 12]"
    using u by simp
  moreover have "map (\<lambda>e. ID (info e)) (stack (snd (run gc_grow 0 ?ops (NewHandlerContainer 0))))
      = [11, 12]"
    by (simp add: Let_def Add_plain Remove_eq)
  ultimately show ?thesis by blast
qed

text \<open>
  Claim C8, where it fails: the counter wraps. \<open>wrapOps\<close> is \<open>2^64 - 10\<close> times an \<open>Add\<close>
  and the \<open>Remove\<close> of the handler added, so the sequence never holds more than one
  handler; its calls of \<open>Add\<close> return 10 up to \<open>2^64 - 1\<close>, and the next \<open>Add\<close> returns 0,
  the value reserved for ``no swap target'', which is smaller than every ID returned
  before. When the handler with the ID 10 stays in the sequence (\<open>dupOps\<close>, at most two
  handlers at a time), the \<open>Add\<close> after \<open>2^64\<close> calls returns 10 again, and the sequence
  holds two handlers with the ID 10.
\<close>

theorem C8_ids_wrap_counterexample:
  "hd (fst (run gc_grow 0 (wrapOps @ [OpAdd (logH 0) []]) (NewHandlerContainer 0))) = 10
   \<and> last (fst (run gc_grow 0 (wrapOps @ [OpAdd (logH 0) []]) (NewHandlerContainer 0))) = 0
   \<and> \<not> sorted_wrt (<)
        (fst (run gc_grow 0 (wrapOps @ [OpAdd (logH 0) []]) (NewHandlerContainer 0)))
   \<and> peak gc_grow 0 (wrapOps @ [OpAdd (logH 0) []]) (NewHandlerContainer 0) \<le> 1
   \<and> map (\<lambda>e. ID (info e)) (stack hcDup) = [10, 10]
   \<and> peak gc_grow 0 dupOps (NewHandlerContainer 0) \<le> 2"
proof -
  have "hd (fst (run gc_grow 0 (wrapOps @ [OpAdd (logH 0) []]) (NewHandlerContainer 0))) = 10
   \<and> last (fst (run gc_grow 0 (wrapOps @ [OpAdd (logH 0) []]) (NewHandlerContainer 0))) = 0
   \<and> \<not> sorted_wrt (<)
        (fst (run gc_grow 0 (wrapOps @ [OpAdd (logH 0) []]) (NewHandlerContainer 0)))"
    by (rule ids_at_wrap [OF wrapOps_adds])
  moreover have "map (\<lambda>e. ID (info e)) (stack hcDup) = [10, 10]"
    unfolding hcDup_state by simp
  ultimately show ?thesis
    using hcWrapped_state(3) hcDup_state(3) by blast
qed

section \<open>Further properties of the code\<close>

text \<open>
  What an extension of a context does hold. For a parent with a well-formed stack \<open>s\<close>:
  right after the call the child reads the parent's stack with the info appended, and the
  parent reads what it read before; when the parent's slice is full (\<open>len = cap\<close>), no
  array of the store changes, so no other context is affected. A parent without a stack
  gives a child that reads the info alone, in a new array.
\<close>

theorem contextWithHandlerInfo_reads:
  assumes ok: "slice_ok h s"
  shows "GetHandlerInfoFromContext (snd (contextWithHandlerInfo grow (Some s) i h))
           (fst (contextWithHandlerInfo grow (Some s) i h)) =
         GetHandlerInfoFromContext h (Some s) @ [i]
       \<and> GetHandlerInfoFromContext (snd (contextWithHandlerInfo grow (Some s) i h)) (Some s) =
         GetHandlerInfoFromContext h (Some s)
       \<and> (len s = cap s \<longrightarrow>
            take (length h) (snd (contextWithHandlerInfo grow (Some s) i h)) = h)
       \<and> GetHandlerInfoFromContext (snd (contextWithHandlerInfo grow None i h))
           (fst (contextWithHandlerInfo grow None i h)) = [i]
       \<and> take (length h) (snd (contextWithHandlerInfo grow None i h)) = h"
proof (cases "len s < cap s")
  case True
  have p: "ptr s < length h" and l: "len s < length (h ! ptr s)"
    using ok True by (simp_all add: slice_ok_def)
  have "take (Suc (len s)) ((h ! ptr s)[len s := i]) = take (len s) (h ! ptr s) @ [i]"
    using l by (simp add: take_Suc_conv_app_nth)
  then show ?thesis
    using True p l
    by (simp add: contextWithHandlerInfo_room contextWithHandlerInfo_None
        GetHandlerInfoFromContext_def)
next
  case False
  then have f: "len s = cap s" using ok by (simp add: slice_ok_def)
  have p: "ptr s < length h" and l: "len s = length (h ! ptr s)"
    using ok f by (simp_all add: slice_ok_def)
  show ?thesis
    using p l
    by (simp add: contextWithHandlerInfo_full [OF f] contextWithHandlerInfo_None
        GetHandlerInfoFromContext_def nth_append)
qed

theorem contextWithHandlerInfo_reads_witness:
  "GetHandlerInfoFromContext (snd sibling1) (fst sibling1) =
     GetHandlerInfoFromContext (snd parent3) (fst parent3) @ [\<lparr>ID = 10, Name = ''inner''\<rparr>]
   \<and> GetHandlerInfoFromContext (snd sibling1) (fst parent3) =
     GetHandlerInfoFromContext (snd parent3) (fst parent3)"
proof -
  have p: "parent3 = (Some \<lparr>ptr = 2, len = 3, cap = 4\<rparr>,
      [[\<lparr>ID = 13, Name = ''''\<rparr>], [\<lparr>ID = 13, Name = ''''\<rparr>, \<lparr>ID = 12, Name = ''''\<rparr>],
       [\<lparr>ID = 13, Name = ''''\<rparr>, \<lparr>ID = 12, Name = ''''\<rparr>, \<lparr>ID = 11, Name = ''''\<rparr>, zeroInfo]])"
    by (simp add: parent3_def contextWithHandlerInfo_def append_info_def gc_grow_def)
  have ok: "slice_ok (snd parent3) \<lparr>ptr = 2, len = 3, cap = 4\<rparr>"
    by (simp add: p slice_ok_def)
  have f: "fst parent3 = Some \<lparr>ptr = 2, len = 3, cap = 4\<rparr>"
    by (simp add: p)
  show ?thesis
    using contextWithHandlerInfo_reads [OF ok, of gc_grow "\<lparr>ID = 10, Name = ''inner''\<rparr>"]
    unfolding sibling1_def f by blast
qed

lemma run_compiled:
  "buildHandlers grow z hc = hc \<Longrightarrow>
   buildHandlers grow z (snd (run grow z ops hc)) = snd (run grow z ops hc)"
proof (induction ops arbitrary: hc)
  case Nil
  then show ?case by simp
next
  case (Cons a ops)
  show ?case
    by (cases a) (simp_all add: Let_def Cons.IH Add_compiled Remove_compiled)
qed

lemma Handle_run_New:
  "HandlerContainer_Handle (snd (run grow z ops (NewHandlerContainer z))) =
     chainH grow z (rev (stack (snd (run grow z ops (NewHandlerContainer z)))))"
proof -
  have "HandlerContainer_Handle (buildHandlers grow z (snd (run grow z ops (NewHandlerContainer z)))) =
     chainH grow z (rev (stack (snd (run grow z ops (NewHandlerContainer z)))))"
    by (simp add: HandlerContainer_Handle_eq cachedHandler_buildHandlers)
  then show ?thesis
    by (simp only: run_compiled [OF New_compiled])
qed

lemma Validate_run_New:
  "HandlerContainer_Validate (snd (run grow z ops (NewHandlerContainer z))) =
     chainV grow (rev (stack (snd (run grow z ops (NewHandlerContainer z)))))"
proof -
  have "HandlerContainer_Validate (buildHandlers grow z (snd (run grow z ops (NewHandlerContainer z)))) =
     chainV grow (rev (stack (snd (run grow z ops (NewHandlerContainer z)))))"
    by (simp add: HandlerContainer_Validate_eq cachedValidator_buildHandlers)
  then show ?thesis
    by (simp only: run_compiled [OF New_compiled])
qed

text \<open>
  The cached chains are a function of the sequence: \<open>NewHandlerContainer\<close>, \<open>Add\<close>,
  \<open>Remove\<close> and every life of a container leave a container whose cached chains are
  those \<open>buildHandlers\<close> compiles from its sequence, so \<open>Handle\<close> and \<open>Validate\<close> are the
  chains of the reversed sequence.
\<close>

theorem cache_is_compiled:
  "buildHandlers grow z (NewHandlerContainer z) = NewHandlerContainer z
   \<and> buildHandlers grow z (snd (Add grow z h opts hc)) = snd (Add grow z h opts hc)
   \<and> buildHandlers grow z (Remove grow z i hc) = Remove grow z i hc
   \<and> buildHandlers grow z (snd (run grow z ops (NewHandlerContainer z))) =
       snd (run grow z ops (NewHandlerContainer z))
   \<and> HandlerContainer_Handle (snd (run grow z ops (NewHandlerContainer z))) =
       chainH grow z (rev (stack (snd (run grow z ops (NewHandlerContainer z)))))
   \<and> HandlerContainer_Validate (snd (run grow z ops (NewHandlerContainer z))) =
       chainV grow (rev (stack (snd (run grow z ops (NewHandlerContainer z)))))"
  by (simp add: New_compiled Add_compiled Remove_compiled run_compiled [OF New_compiled]
      Handle_run_New Validate_run_New)

text \<open>
  The empty chain: a new container, on \<open>Handle\<close>, returns the zero value and no error and,
  on \<open>Validate\<close>, no error; neither touches the world.
\<close>

theorem empty_container_is_noop:
  "HandlerContainer_Handle (NewHandlerContainer z) cx msg w = ((z, None), w)
   \<and> HandlerContainer_Validate (NewHandlerContainer z) cx msg w = (None, w)"
  by (simp add: HandlerContainer_Handle_eq HandlerContainer_Validate_eq
      nilCurriedHandlerFunc_def nilCurriedValidatorFunc_def)

text \<open>
  What \<open>Add\<close> with the last option does, for options without a swap target: the length
  and the capacity of the sequence never change. With no room left (or an empty
  sequence) the sequence is unchanged and the new handler is in no chain; with room left
  the new handler is at the head and the last entry, the newest handler, is gone.
\<close>

theorem Add_last_keeps_length:
  assumes "swapID (buildAddOptions opts) = 0" and "last_opt (buildAddOptions opts)"
  shows "stack (snd (Add grow z h opts hc)) =
           (if stack hc = [] \<or> stack_cap hc < length (stack hc) + 1 then stack hc
            else \<lparr>handler = h, info = \<lparr>ID = nextID hc, Name = name (buildAddOptions opts)\<rparr>\<rparr>
                 # butlast (stack hc))
       \<and> length (stack (snd (Add grow z h opts hc))) = length (stack hc)
       \<and> stack_cap (snd (Add grow z h opts hc)) = stack_cap hc
       \<and> fst (Add grow z h opts hc) = nextID hc
       \<and> nextID (snd (Add grow z h opts hc)) = nextID hc + 1"
  using assms by (simp add: Add_def Let_def slices_Insert0_def)

theorem Add_last_keeps_length_witness:
  "map info (stack (snd (Add gc_grow 0 (logH 2) [AddOptionLast]
      (Remove gc_grow 0 11 (addAll gc_grow 0 [logH 0, logH 1] (NewHandlerContainer 0)))))) =
     [\<lparr>ID = 12, Name = ''''\<rparr>]"
proof -
  let ?hc = "Remove gc_grow 0 11 (addAll gc_grow 0 [logH 0, logH 1] (NewHandlerContainer 0))"
  have o: "swapID (buildAddOptions [AddOptionLast]) = 0" "last_opt (buildAddOptions [AddOptionLast])"
      "name (buildAddOptions [AddOptionLast]) = ''''"
    by (simp_all add: buildAddOptions_def AddOptionLast_def)
  have st: "stack ?hc = [\<lparr>handler = logH 0, info = \<lparr>ID = 10, Name = ''''\<rparr>\<rparr>]"
    "stack_cap ?hc = 2" "nextID ?hc = 12"
    by (simp_all add: Remove_eq Remove_def slices_DeleteFunc_def Add_plain gc_grow_def)
  show ?thesis
    using Add_last_keeps_length [OF o(1) o(2), of gc_grow 0 "logH 2" ?hc]
    unfolding st o by simp
qed

text \<open>
  \<open>Remove\<close> deletes every entry with the ID and keeps the others in their order; the
  capacity and the next-ID counter stay, and the chains are compiled from what is left.
\<close>

theorem Remove_filters:
  "stack (Remove grow z i hc) = filter (\<lambda>e. ID (info e) \<noteq> i) (stack hc)
   \<and> stack_cap (Remove grow z i hc) = stack_cap hc
   \<and> nextID (Remove grow z i hc) = nextID hc
   \<and> HandlerContainer_Handle (Remove grow z i hc) =
       chainH grow z (rev (filter (\<lambda>e. ID (info e) \<noteq> i) (stack hc)))
   \<and> HandlerContainer_Validate (Remove grow z i hc) =
       chainV grow (rev (filter (\<lambda>e. ID (info e) \<noteq> i) (stack hc)))"
  by (simp add: Remove_eq HandlerContainer_Handle_eq HandlerContainer_Validate_eq
      cachedHandler_buildHandlers cachedValidator_buildHandlers)

end
